theory Spec2Isabelle
  imports Complex_Main "HOL-Library.Monad_Syntax"
begin

section \<open>The iSAC pitch filter (pitch\_filter.c)\<close>

text \<open>
  A shallow embedding of \<^verbatim>\<open>modules/audio_coding/codecs/isac/main/source/pitch_filter.c\<close>.

  \<^item> A C \<^verbatim>\<open>double\<close> is a \<^typ>\<open>real\<close>: arithmetic is exact, there is no rounding, no
    infinity and no NaN.
  \<^item> A C \<^verbatim>\<open>int\<close> is an \<^typ>\<open>int\<close>; the indices of this file stay far from the limits
    of a machine integer.
  \<^item> An array is a list whose length is the declared size. Every subscript is checked:
    a read or write outside the array (undefined behaviour in C) makes the enclosing
    function return \<open>None\<close>.
  \<^item> A function that writes through its pointer arguments returns the new contents.
    The arrays that a function receives do not overlap.
\<close>

subsection \<open>Checked array access\<close>

definition rd :: "'a list \<Rightarrow> int \<Rightarrow> 'a option" where
  "rd xs i = (if 0 \<le> i \<and> i < int (length xs) then Some (xs ! nat i) else None)"

definition wr :: "'a list \<Rightarrow> int \<Rightarrow> 'a \<Rightarrow> 'a list option" where
  "wr xs i v = (if 0 \<le> i \<and> i < int (length xs) then Some (xs[nat i := v]) else None)"

subsection \<open>Constants\<close>

text \<open>
  Modelled from the spec: the macros \<^verbatim>\<open>PITCH_DAMPORDER\<close>, \<^verbatim>\<open>PITCH_FRACS\<close>,
  \<^verbatim>\<open>PITCH_FRACORDER\<close> and \<^verbatim>\<open>PITCH_SUBFRAMES\<close>. The header that defines them
  (\<^verbatim>\<open>pitch_estimator.h\<close>) is not part of the sources. The specification fixes a damping
  filter of 5 taps, 8 fractional positions, 9 interpolation taps and 4 sub-frames, and
  the source agrees: \<^verbatim>\<open>kDampFilter\<close> is initialised with 5 values, \<^verbatim>\<open>kIntrpCoef\<close> with
  8 rows of 9 values, and \<^verbatim>\<open>damper_state_dg\<close> and \<^verbatim>\<open>gain_mult\<close> are declared with 4
  entries (``there are 4 pitch sub-frames in an iSAC frame'').
\<close>

definition PITCH_DAMPORDER :: int where "PITCH_DAMPORDER = 5"
definition PITCH_FRACS :: int where "PITCH_FRACS = 8"
definition PITCH_FRACORDER :: int where "PITCH_FRACORDER = 9"
definition PITCH_SUBFRAMES :: int where "PITCH_SUBFRAMES = 4"

text \<open>
  The remaining macros of that header are parameters of the model: every function that
  uses one takes a record of them, and every theorem holds for all their values.
\<close>

record settings =
  PITCH_BUFFSIZE :: int
  PITCH_FRAME_LEN :: int
  PITCH_INTBUFFSIZE :: int
  QLOOKAHEAD :: int
  PITCH_UPDATE :: int
  PITCH_GRAN_PER_SUBFRAME :: int
  PITCH_FILTDELAY :: real
  PITCH_UPSTEP :: real
  PITCH_DOWNSTEP :: real

text \<open>
  The values of the iSAC codec: a frame of 30 ms and a lookahead of 3 ms at 8 kHz, as the
  comments of the source say, and the other macros as the codec's \<^verbatim>\<open>settings.h\<close> has
  them. No theorem depends on them; they serve as concrete arguments of \<open>Update\<close>.
\<close>

definition isac_settings :: settings where
  "isac_settings =
     \<lparr>PITCH_BUFFSIZE = 190, PITCH_FRAME_LEN = 240, PITCH_INTBUFFSIZE = 430,
      QLOOKAHEAD = 24, PITCH_UPDATE = 12, PITCH_GRAN_PER_SUBFRAME = 5,
      PITCH_FILTDELAY = 1.5, PITCH_UPSTEP = 1.5, PITCH_DOWNSTEP = 0.67\<rparr>"

definition kDampFilter :: "real list" where
  "kDampFilter = [-0.07, 0.25, 0.64, 0.25, -0.07]"

definition kIntrpCoef :: "real list list" where
  "kIntrpCoef =
    [[-0.02239172458614,  0.06653315052934, -0.16515880017569,  0.60701333734125,
      0.64671399919202, -0.20249000396417,  0.09926548334755, -0.04765933793109,
      0.01754159521746],
     [-0.01985640750434,  0.05816126837866, -0.13991265473714,  0.44560418147643,
      0.79117042386876, -0.20266133815188,  0.09585268418555, -0.04533310458084,
      0.01654127246314],
     [-0.01463300534216,  0.04229888475060, -0.09897034715253,  0.28284326017787,
      0.90385267956632, -0.16976950138649,  0.07704272393639, -0.03584218578311,
      0.01295781500709],
     [-0.00764851320885,  0.02184035544377, -0.04985561057281,  0.13083306574393,
      0.97545011664662, -0.10177807997561,  0.04400901776474, -0.02010737175166,
      0.00719783432422],
     [-0.00000000000000,  0.00000000000000, -0.00000000000001,  0.00000000000001,
      0.99999999999999,  0.00000000000001, -0.00000000000001,  0.00000000000000,
      -0.00000000000000],
     [0.00719783432422, -0.02010737175166,  0.04400901776474, -0.10177807997562,
      0.97545011664663,  0.13083306574393, -0.04985561057280,  0.02184035544377,
      -0.00764851320885],
     [0.01295781500710, -0.03584218578312,  0.07704272393640, -0.16976950138650,
      0.90385267956634,  0.28284326017785, -0.09897034715252,  0.04229888475059,
      -0.01463300534216],
     [0.01654127246315, -0.04533310458085,  0.09585268418557, -0.20266133815190,
      0.79117042386878,  0.44560418147640, -0.13991265473712,  0.05816126837865,
      -0.01985640750433]]"

subsection \<open>Data\<close>

datatype PitchFilterOperation =
  kPitchFilterPre | kPitchFilterPost | kPitchFilterPreLa | kPitchFilterPreGain

text \<open>
  \<^verbatim>\<open>interpol_coeff\<close> points to a row of \<^verbatim>\<open>kIntrpCoef\<close>; the model keeps the number
  of that row, and \<open>interpol_coeff_at\<close> reads through the pointer.
\<close>

record PitchFilterParam =
  buffer :: "real list"
  damper_state :: "real list"
  interpol_coeff :: int
  gain :: real
  lag :: real
  lag_offset :: int
  sub_frame :: int
  mode :: PitchFilterOperation
  num_samples :: int
  index :: int
  damper_state_dg :: "real list list"
  gain_mult :: "real list"

text \<open>
  Modelled from the spec: the struct \<^verbatim>\<open>PitchFiltstr\<close>, the persistent filter state
  (history, damper memory, last lag, last gain). Its declaration is not part of the
  sources; the fields are the four that \<^verbatim>\<open>FilterFrame\<close> reads and writes. The declared
  sizes of \<^verbatim>\<open>ubuf\<close> and \<^verbatim>\<open>ystate\<close> are the lengths of the lists.
\<close>

record PitchFiltstr =
  ubuf :: "real list"
  ystate :: "real list"
  oldlagp :: real
  oldgainp :: real

definition interpol_coeff_at :: "int \<Rightarrow> int \<Rightarrow> real option" where
  "interpol_coeff_at row m = do { r \<leftarrow> rd kIntrpCoef row; rd r m }"

subsection \<open>Loops over a coefficient index\<close>

text \<open>\<^verbatim>\<open>for (m ...) sum += a[m] * b[m]\<close>, for the values of \<open>m\<close> in the order given.\<close>

fun mac_loop :: "(int \<Rightarrow> real option) \<Rightarrow> (int \<Rightarrow> real option) \<Rightarrow> int list \<Rightarrow> real \<Rightarrow> real option" where
  "mac_loop a b [] sum1 = Some sum1"
| "mac_loop a b (m # ms) sum1 =
     do { x \<leftarrow> a m; y \<leftarrow> b m; mac_loop a b ms (sum1 + x * y) }"

text \<open>\<^verbatim>\<open>for (m ...) sum -= a[m] * b[m]\<close>.\<close>

fun msub_loop :: "(int \<Rightarrow> real option) \<Rightarrow> (int \<Rightarrow> real option) \<Rightarrow> int list \<Rightarrow> real \<Rightarrow> real option" where
  "msub_loop a b [] sum1 = Some sum1"
| "msub_loop a b (m # ms) sum1 =
     do { x \<leftarrow> a m; y \<leftarrow> b m; msub_loop a b ms (sum1 - x * y) }"

text \<open>\<^verbatim>\<open>for (m = PITCH_DAMPORDER - 1; m > 0; --m) state[m] = state[m - 1]\<close>.\<close>

fun shift_states :: "int list \<Rightarrow> real list \<Rightarrow> real list option" where
  "shift_states [] ds = Some ds"
| "shift_states (m # ms) ds =
     do { v \<leftarrow> rd ds (m - 1); ds' \<leftarrow> wr ds m v; shift_states ms ds' }"

text \<open>The same shift for the four trial states: \<open>m\<close> in the outer loop, \<open>j\<close> inside.\<close>

fun shift_states_dg_j :: "int \<Rightarrow> int list \<Rightarrow> real list list \<Rightarrow> real list list option" where
  "shift_states_dg_j m [] dsdg = Some dsdg"
| "shift_states_dg_j m (j # js) dsdg =
     do { row \<leftarrow> rd dsdg j; v \<leftarrow> rd row (m - 1); row' \<leftarrow> wr row m v;
          dsdg' \<leftarrow> wr dsdg j row'; shift_states_dg_j m js dsdg' }"

fun shift_states_dg :: "int list \<Rightarrow> real list list \<Rightarrow> real list list option" where
  "shift_states_dg [] dsdg = Some dsdg"
| "shift_states_dg (m # ms) dsdg =
     do { dsdg' \<leftarrow> shift_states_dg_j m [0..3] dsdg; shift_states_dg ms dsdg' }"

subsection \<open>FilterSegment\<close>

text \<open>
  The part of a sample that runs in mode \<^verbatim>\<open>kPitchFilterPreGain\<close> only. \<open>sum1\<close> is the
  fractional-pitch sum of the sample, before the gain.
\<close>

fun frac_dg_loop :: "PitchFilterParam \<Rightarrow> real \<Rightarrow> real list list \<Rightarrow> int \<Rightarrow> int \<Rightarrow> int list \<Rightarrow>
    real list list \<Rightarrow> real list list option" where
  "frac_dg_loop p sum1 out_dg lag_index m_tmp [] dsdg = Some dsdg"
| "frac_dg_loop p sum1 out_dg lag_index m_tmp (j # js) dsdg =
     do { sum2 \<leftarrow> mac_loop (\<lambda>m. do { row \<leftarrow> rd out_dg j; rd row (lag_index + m) })
                    (interpol_coeff_at (interpol_coeff p))
                    (rev [m_tmp..PITCH_FRACORDER - 1]) 0.0;
          gm \<leftarrow> rd (gain_mult p) j;
          row \<leftarrow> rd dsdg j;
          row' \<leftarrow> wr row 0 (gm * sum1 + gain p * sum2);
          dsdg' \<leftarrow> wr dsdg j row';
          frac_dg_loop p sum1 out_dg lag_index m_tmp js dsdg' }"

fun damp_dg_loop :: "PitchFilterParam \<Rightarrow> real list list \<Rightarrow> int list \<Rightarrow> real list list \<Rightarrow>
    real list list option" where
  "damp_dg_loop p dsdg [] out_dg = Some out_dg"
| "damp_dg_loop p dsdg (j # js) out_dg =
     do { sum1 \<leftarrow> msub_loop (\<lambda>m. do { row \<leftarrow> rd dsdg j; rd row m }) (rd kDampFilter)
                   [0..PITCH_DAMPORDER - 1] 0.0;
          row \<leftarrow> rd out_dg j;
          row' \<leftarrow> wr row (index p) sum1;
          out_dg' \<leftarrow> wr out_dg j row';
          damp_dg_loop p dsdg js out_dg' }"

definition FilterSegment_dg :: "PitchFilterParam \<Rightarrow> real \<Rightarrow> real list list \<Rightarrow>
    (PitchFilterParam \<times> real list list) option" where
  "FilterSegment_dg p sum1 out_dg =
     do { let lag_index = index p - lag_offset p;
          let m_tmp = (if lag_index < 0 then - lag_index else 0);
          dsdg \<leftarrow> shift_states_dg (rev [1..PITCH_DAMPORDER - 1]) (damper_state_dg p);
          dsdg \<leftarrow> frac_dg_loop p sum1 out_dg lag_index m_tmp [0..sub_frame p] dsdg;
          out_dg \<leftarrow> damp_dg_loop p dsdg [0..sub_frame p] out_dg;
          Some (p\<lparr>damper_state_dg := dsdg\<rparr>, out_dg) }"

text \<open>The variables of \<^verbatim>\<open>FilterSegment\<close> that change from sample to sample.\<close>

record segment_vars =
  parameters :: PitchFilterParam
  out_data :: "real list"
  out_dg :: "real list list"
  pos :: int
  pos_lag :: int

text \<open>One pass through the body of the loop over \<open>n\<close>.\<close>

definition FilterSegment_sample :: "real list \<Rightarrow> segment_vars \<Rightarrow> segment_vars option" where
  "FilterSegment_sample in_data s =
     do { let p = parameters s;
          ds \<leftarrow> shift_states (rev [1..PITCH_DAMPORDER - 1]) (damper_state p);
          let p = p\<lparr>damper_state := ds\<rparr>;
          sum1 \<leftarrow> mac_loop (\<lambda>m. rd (buffer p) (pos_lag s + m))
                   (interpol_coeff_at (interpol_coeff p)) [0..PITCH_FRACORDER - 1] 0.0;
          ds \<leftarrow> wr (damper_state p) 0 (gain p * sum1);
          let p = p\<lparr>damper_state := ds\<rparr>;
          (p, dg) \<leftarrow> (if mode p = kPitchFilterPreGain then FilterSegment_dg p sum1 (out_dg s)
                      else Some (p, out_dg s));
          sum1 \<leftarrow> mac_loop (rd (damper_state p)) (rd kDampFilter) [0..PITCH_DAMPORDER - 1] 0.0;
          x \<leftarrow> rd in_data (index p);
          out \<leftarrow> wr (out_data s) (index p) (x - sum1);
          x \<leftarrow> rd in_data (index p);
          y \<leftarrow> rd out (index p);
          buf \<leftarrow> wr (buffer p) (pos s) (x + y);
          let p = p\<lparr>buffer := buf\<rparr>;
          Some \<lparr>parameters = p\<lparr>index := index p + 1\<rparr>, out_data = out, out_dg = dg,
                pos = pos s + 1, pos_lag = pos_lag s + 1\<rparr> }"

text \<open>
  The loop \<^verbatim>\<open>for (n = 0; n < parameters->num_samples; ++n)\<close>; the body leaves
  \<^verbatim>\<open>num_samples\<close> as it is, so the number of passes is known on entry.
\<close>

fun FilterSegment_loop :: "real list \<Rightarrow> nat \<Rightarrow> segment_vars \<Rightarrow> segment_vars option" where
  "FilterSegment_loop in_data 0 s = Some s"
| "FilterSegment_loop in_data (Suc n) s =
     do { s' \<leftarrow> FilterSegment_sample in_data s; FilterSegment_loop in_data n s' }"

definition FilterSegment :: "settings \<Rightarrow> real list \<Rightarrow> PitchFilterParam \<Rightarrow> real list \<Rightarrow>
    real list list \<Rightarrow> (PitchFilterParam \<times> real list \<times> real list list) option" where
  "FilterSegment c in_data p out dg =
     do { let pos0 = index p + PITCH_BUFFSIZE c;
          let pos_lag0 = pos0 - lag_offset p;
          s \<leftarrow> FilterSegment_loop in_data (nat (num_samples p))
                 \<lparr>parameters = p, out_data = out, out_dg = dg, pos = pos0, pos_lag = pos_lag0\<rparr>;
          Some (parameters s, out_data s, out_dg s) }"

subsection \<open>Update\<close>

text \<open>
  \<^verbatim>\<open>WebRtcIsac_lrint\<close> is declared in \<^verbatim>\<open>os_specific_inline.h\<close>, which is not part of the
  sources; \<open>Update\<close> takes it as the parameter \<open>lrint\<close>, the conversion of its result to
  \<^verbatim>\<open>int\<close> included. \<open>lrint_half_even\<close> is the C library's \<^verbatim>\<open>lrint\<close> in the default
  rounding mode (to nearest, ties to even).
\<close>

definition lrint_half_even :: "real \<Rightarrow> int" where
  "lrint_half_even x =
     (let f = \<lfloor>x\<rfloor>; d = x - of_int f
      in if d < 1 / 2 then f else if d > 1 / 2 then f + 1 else if even f then f else f + 1)"

definition Update :: "(real \<Rightarrow> int) \<Rightarrow> settings \<Rightarrow> PitchFilterParam \<Rightarrow> PitchFilterParam option" where
  "Update lrint c p =
     do { let p = p\<lparr>lag_offset := lrint (lag p + PITCH_FILTDELAY c + 0.5)\<rparr>;
          let fraction = of_int (lag_offset p) - (lag p + PITCH_FILTDELAY c);
          let fraction_index = lrint (of_int PITCH_FRACS * fraction - 0.5);
          let p = p\<lparr>interpol_coeff := fraction_index\<rparr>;
          if mode p = kPitchFilterPreGain then
            do { g \<leftarrow> rd (gain_mult p) (sub_frame p);
                 gm \<leftarrow> wr (gain_mult p) (sub_frame p) (g + 0.2);
                 g \<leftarrow> rd gm (sub_frame p);
                 gm \<leftarrow> (if g > 1.0 then wr gm (sub_frame p) 1.0 else Some gm);
                 gm \<leftarrow> (if sub_frame p > 0 then
                          do { h \<leftarrow> rd gm (sub_frame p - 1); wr gm (sub_frame p - 1) (h - 0.2) }
                        else Some gm);
                 Some (p\<lparr>gain_mult := gm\<rparr>) }
          else Some p }"

subsection \<open>FilterFrame\<close>

text \<open>\<^verbatim>\<open>memset(out_dg[n], 0, sizeof(out_dg[n]))\<close> for the sub-frames \<open>n\<close> given.\<close>

fun clear_out_dg :: "int list \<Rightarrow> real list list \<Rightarrow> real list list option" where
  "clear_out_dg [] dg = Some dg"
| "clear_out_dg (n # ns) dg =
     do { row \<leftarrow> rd dg n; dg' \<leftarrow> wr dg n (replicate (length row) 0);
          clear_out_dg ns dg' }"

text \<open>\<^verbatim>\<open>gains[n] *= -kEnhancer\<close> for the sub-frames \<open>n\<close> given.\<close>

definition kEnhancer :: real where "kEnhancer = 1.3"

fun enhance_gains :: "int list \<Rightarrow> real list \<Rightarrow> real list option" where
  "enhance_gains [] gains = Some gains"
| "enhance_gains (n # ns) gains =
     do { g \<leftarrow> rd gains n; gains' \<leftarrow> wr gains n (g * - kEnhancer); enhance_gains ns gains' }"

text \<open>
  Lines 273 to 303: the local \<^verbatim>\<open>filter_parameters\<close> is set up from the persistent state,
  then the mode is prepared. \<open>uninit\<close> stands for what the automatic variable holds
  before any assignment; the fields not assigned here keep it. The first \<^verbatim>\<open>memcpy\<close>
  needs \<^verbatim>\<open>ubuf\<close> to fit into \<^verbatim>\<open>buffer\<close> (the compile-time assertion), the last one
  needs \<^verbatim>\<open>ystate\<close> to fit into \<^verbatim>\<open>damper_state\<close>.
\<close>

definition FilterFrame_setup :: "settings \<Rightarrow> PitchFilterParam \<Rightarrow> PitchFiltstr \<Rightarrow> real list \<Rightarrow>
    PitchFilterOperation \<Rightarrow> real list list \<Rightarrow>
    (PitchFilterParam \<times> real list \<times> real list list) option" where
  "FilterFrame_setup c uninit filter_state gains mode1 dg =
     (if int (length (ubuf filter_state)) \<le> PITCH_INTBUFFSIZE c + QLOOKAHEAD c \<and>
         int (length (ystate filter_state)) \<le> PITCH_DAMPORDER then
        do { let p = uninit\<lparr>index := 0, lag_offset := 0, mode := mode1\<rparr>;
             let p = p\<lparr>buffer := ubuf filter_state @
                        replicate (nat (PITCH_INTBUFFSIZE c + QLOOKAHEAD c) -
                                   length (ubuf filter_state)) 0\<rparr>;
             let p = p\<lparr>damper_state := ystate filter_state @
                        drop (length (ystate filter_state)) (damper_state p)\<rparr>;
             if mode1 = kPitchFilterPreGain then
               do { let p = p\<lparr>gain_mult := replicate 4 0\<rparr>;
                    let p = p\<lparr>damper_state_dg := replicate 4 (replicate (nat PITCH_DAMPORDER) 0)\<rparr>;
                    dg' \<leftarrow> clear_out_dg [0..PITCH_SUBFRAMES - 1] dg;
                    Some (p, gains, dg') }
             else if mode1 = kPitchFilterPost then
               do { gains' \<leftarrow> enhance_gains [0..PITCH_SUBFRAMES - 1] gains;
                    Some (p, gains', dg) }
             else Some (p, gains, dg) }
      else None)"

text \<open>
  Lines 305 to 317: the values the interpolation of the first sub-frame starts from.
  The result is \<open>(old_lag, old_gain, filter_parameters)\<close>.
\<close>

definition FilterFrame_anchors :: "settings \<Rightarrow> PitchFiltstr \<Rightarrow> real list \<Rightarrow> real list \<Rightarrow>
    PitchFilterParam \<Rightarrow> (real \<times> real \<times> PitchFilterParam) option" where
  "FilterFrame_anchors c filter_state lags gains p =
     do { let old_lag = oldlagp filter_state;
          let old_gain = oldgainp filter_state;
          lag0 \<leftarrow> rd lags 0;
          if lag0 > PITCH_UPSTEP c * old_lag \<or> lag0 < PITCH_DOWNSTEP c * old_lag then
            do { gain0 \<leftarrow> rd gains 0;
                 if mode p = kPitchFilterPreGain then
                   do { gm \<leftarrow> wr (gain_mult p) 0 1.0; Some (lag0, gain0, p\<lparr>gain_mult := gm\<rparr>) }
                 else Some (lag0, gain0, p) }
          else Some (old_lag, old_gain, p) }"

text \<open>The loop over \<open>n\<close> of lines 332 to 341, \<^verbatim>\<open>PITCH_GRAN_PER_SUBFRAME\<close> passes.\<close>

fun FilterFrame_granules :: "(real \<Rightarrow> int) \<Rightarrow> settings \<Rightarrow> real list \<Rightarrow> real \<Rightarrow> real \<Rightarrow> nat \<Rightarrow>
    PitchFilterParam \<times> real list \<times> real list list \<Rightarrow>
    (PitchFilterParam \<times> real list \<times> real list list) option" where
  "FilterFrame_granules lrint c in_data gain_delta lag_delta 0 s = Some s"
| "FilterFrame_granules lrint c in_data gain_delta lag_delta (Suc n) (p, out, dg) =
     do { let p = p\<lparr>gain := gain p + gain_delta\<rparr>;
          let p = p\<lparr>lag := lag p + lag_delta\<rparr>;
          p \<leftarrow> Update lrint c p;
          s \<leftarrow> FilterSegment c in_data p out dg;
          FilterFrame_granules lrint c in_data gain_delta lag_delta n s }"

text \<open>
  The loop over \<open>m\<close> of lines 320 to 342, for the sub-frames given. The state is
  \<open>(old_lag, old_gain, filter_parameters, out_data, out_dg)\<close>.
\<close>

fun FilterFrame_subframes :: "(real \<Rightarrow> int) \<Rightarrow> settings \<Rightarrow> real list \<Rightarrow> real list \<Rightarrow> real list \<Rightarrow>
    int list \<Rightarrow> real \<times> real \<times> PitchFilterParam \<times> real list \<times> real list list \<Rightarrow>
    (real \<times> real \<times> PitchFilterParam \<times> real list \<times> real list list) option" where
  "FilterFrame_subframes lrint c in_data lags gains [] s = Some s"
| "FilterFrame_subframes lrint c in_data lags gains (m # ms) (old_lag, old_gain, p, out, dg) =
     do { let p = p\<lparr>sub_frame := m\<rparr>;
          lag_m \<leftarrow> rd lags m;
          let lag_delta = (lag_m - old_lag) / of_int (PITCH_GRAN_PER_SUBFRAME c);
          let p = p\<lparr>lag := old_lag\<rparr>;
          gain_m \<leftarrow> rd gains m;
          let gain_delta = (gain_m - old_gain) / of_int (PITCH_GRAN_PER_SUBFRAME c);
          let p = p\<lparr>gain := old_gain\<rparr>;
          (p, out, dg) \<leftarrow> FilterFrame_granules lrint c in_data gain_delta lag_delta
                            (nat (PITCH_GRAN_PER_SUBFRAME c)) (p, out, dg);
          FilterFrame_subframes lrint c in_data lags gains ms (lag_m, gain_m, p, out, dg) }"

text \<open>
  Lines 346 to 353: the two \<^verbatim>\<open>memcpy\<close> out of the local and the two stores. The first
  copy reads \<^verbatim>\<open>sizeof(ubuf)\<close> bytes of \<^verbatim>\<open>buffer\<close> from \<^verbatim>\<open>PITCH_FRAME_LEN\<close> on.
\<close>

definition FilterFrame_export :: "settings \<Rightarrow> PitchFiltstr \<Rightarrow> PitchFilterParam \<Rightarrow> real \<Rightarrow> real \<Rightarrow>
    PitchFiltstr option" where
  "FilterFrame_export c filter_state p old_lag old_gain =
     (if 0 \<le> PITCH_FRAME_LEN c \<and>
         PITCH_FRAME_LEN c + int (length (ubuf filter_state)) \<le> int (length (buffer p)) \<and>
         length (ystate filter_state) \<le> length (damper_state p) then
        Some (filter_state\<lparr>ubuf := take (length (ubuf filter_state))
                                     (drop (nat (PITCH_FRAME_LEN c)) (buffer p)),
                           ystate := take (length (ystate filter_state)) (damper_state p),
                           oldlagp := old_lag, oldgainp := old_gain\<rparr>)
      else None)"

text \<open>
  The whole function. The result is the persistent state, the caller's \<^verbatim>\<open>gains\<close>,
  \<^verbatim>\<open>out_data\<close> and \<^verbatim>\<open>out_dg\<close> as they are on return.
\<close>

definition FilterFrame :: "(real \<Rightarrow> int) \<Rightarrow> settings \<Rightarrow> PitchFilterParam \<Rightarrow> real list \<Rightarrow>
    PitchFiltstr \<Rightarrow> real list \<Rightarrow> real list \<Rightarrow> PitchFilterOperation \<Rightarrow> real list \<Rightarrow>
    real list list \<Rightarrow> (PitchFiltstr \<times> real list \<times> real list \<times> real list list) option" where
  "FilterFrame lrint c uninit in_data filter_state lags gains mode1 out dg =
     do { (p, gains, dg) \<leftarrow> FilterFrame_setup c uninit filter_state gains mode1 dg;
          (old_lag, old_gain, p) \<leftarrow> FilterFrame_anchors c filter_state lags gains p;
          let p = p\<lparr>num_samples := PITCH_UPDATE c\<rparr>;
          (old_lag, old_gain, p, out, dg) \<leftarrow>
             FilterFrame_subframes lrint c in_data lags gains [0..PITCH_SUBFRAMES - 1]
               (old_lag, old_gain, p, out, dg);
          filter_state \<leftarrow> (if mode1 \<noteq> kPitchFilterPreGain
                            then FilterFrame_export c filter_state p old_lag old_gain
                            else Some filter_state);
          (p, out, dg) \<leftarrow> (if mode1 = kPitchFilterPreGain \<or> mode1 = kPitchFilterPreLa then
                             do { let p = p\<lparr>sub_frame := PITCH_SUBFRAMES - 1\<rparr>;
                                  let p = p\<lparr>num_samples := QLOOKAHEAD c\<rparr>;
                                  FilterSegment c in_data p out dg }
                           else Some (p, out, dg));
          Some (filter_state, gains, out, dg) }"

subsection \<open>Entry points\<close>

text \<open>The three functions that pass \<^verbatim>\<open>NULL\<close> for \<^verbatim>\<open>out_dg\<close> have no rows there.\<close>

definition WebRtcIsac_PitchfilterPre :: "(real \<Rightarrow> int) \<Rightarrow> settings \<Rightarrow> PitchFilterParam \<Rightarrow>
    real list \<Rightarrow> real list \<Rightarrow> PitchFiltstr \<Rightarrow> real list \<Rightarrow> real list \<Rightarrow>
    (PitchFiltstr \<times> real list \<times> real list \<times> real list list) option" where
  "WebRtcIsac_PitchfilterPre lrint c uninit in_data out pf_state lags gains =
     FilterFrame lrint c uninit in_data pf_state lags gains kPitchFilterPre out []"

definition WebRtcIsac_PitchfilterPre_la :: "(real \<Rightarrow> int) \<Rightarrow> settings \<Rightarrow> PitchFilterParam \<Rightarrow>
    real list \<Rightarrow> real list \<Rightarrow> PitchFiltstr \<Rightarrow> real list \<Rightarrow> real list \<Rightarrow>
    (PitchFiltstr \<times> real list \<times> real list \<times> real list list) option" where
  "WebRtcIsac_PitchfilterPre_la lrint c uninit in_data out pf_state lags gains =
     FilterFrame lrint c uninit in_data pf_state lags gains kPitchFilterPreLa out []"

definition WebRtcIsac_PitchfilterPre_gains :: "(real \<Rightarrow> int) \<Rightarrow> settings \<Rightarrow> PitchFilterParam \<Rightarrow>
    real list \<Rightarrow> real list \<Rightarrow> real list list \<Rightarrow> PitchFiltstr \<Rightarrow> real list \<Rightarrow> real list \<Rightarrow>
    (PitchFiltstr \<times> real list \<times> real list \<times> real list list) option" where
  "WebRtcIsac_PitchfilterPre_gains lrint c uninit in_data out dg pf_state lags gains =
     FilterFrame lrint c uninit in_data pf_state lags gains kPitchFilterPreGain out dg"

definition WebRtcIsac_PitchfilterPost :: "(real \<Rightarrow> int) \<Rightarrow> settings \<Rightarrow> PitchFilterParam \<Rightarrow>
    real list \<Rightarrow> real list \<Rightarrow> PitchFiltstr \<Rightarrow> real list \<Rightarrow> real list \<Rightarrow>
    (PitchFiltstr \<times> real list \<times> real list \<times> real list list) option" where
  "WebRtcIsac_PitchfilterPost lrint c uninit in_data out pf_state lags gains =
     FilterFrame lrint c uninit in_data pf_state lags gains kPitchFilterPost out []"

subsection \<open>The order of the specification\<close>

text \<open>
  The specification lists the lookahead segment (its step 6) before the write-back of
  the persistent state (its step 7). \<open>FilterFrame_lookahead_first\<close> follows that
  wording: it is \<open>FilterFrame\<close> with the last two steps exchanged, so that the export
  sees the parameters left by the lookahead segment. It is not the source's order and
  serves for comparison only.
\<close>

definition FilterFrame_lookahead_first :: "(real \<Rightarrow> int) \<Rightarrow> settings \<Rightarrow> PitchFilterParam \<Rightarrow>
    real list \<Rightarrow> PitchFiltstr \<Rightarrow> real list \<Rightarrow> real list \<Rightarrow> PitchFilterOperation \<Rightarrow> real list \<Rightarrow>
    real list list \<Rightarrow> (PitchFiltstr \<times> real list \<times> real list \<times> real list list) option" where
  "FilterFrame_lookahead_first lrint c uninit in_data filter_state lags gains mode1 out dg =
     do { (p, gains, dg) \<leftarrow> FilterFrame_setup c uninit filter_state gains mode1 dg;
          (old_lag, old_gain, p) \<leftarrow> FilterFrame_anchors c filter_state lags gains p;
          let p = p\<lparr>num_samples := PITCH_UPDATE c\<rparr>;
          (old_lag, old_gain, p, out, dg) \<leftarrow>
             FilterFrame_subframes lrint c in_data lags gains [0..PITCH_SUBFRAMES - 1]
               (old_lag, old_gain, p, out, dg);
          (p, out, dg) \<leftarrow> (if mode1 = kPitchFilterPreGain \<or> mode1 = kPitchFilterPreLa then
                             do { let p = p\<lparr>sub_frame := PITCH_SUBFRAMES - 1\<rparr>;
                                  let p = p\<lparr>num_samples := QLOOKAHEAD c\<rparr>;
                                  FilterSegment c in_data p out dg }
                           else Some (p, out, dg));
          filter_state \<leftarrow> (if mode1 \<noteq> kPitchFilterPreGain
                            then FilterFrame_export c filter_state p old_lag old_gain
                            else Some filter_state);
          Some (filter_state, gains, out, dg) }"

subsection \<open>Data for the concrete runs\<close>

text \<open>
  A full frame of 240 samples is too long to evaluate inside the logic. The concrete
  runs use a frame of 8 samples: 4 sub-frames of 2 granules of 1 sample, 2 samples of
  lookahead and 16 samples of history, with the relations between the constants that
  the codec has (\<^verbatim>\<open>PITCH_INTBUFFSIZE = PITCH_FRAME_LEN + PITCH_BUFFSIZE\<close>) and its
  filter delay and step ratios.
\<close>

definition short_settings :: settings where
  "short_settings =
     \<lparr>PITCH_BUFFSIZE = 16, PITCH_FRAME_LEN = 8, PITCH_INTBUFFSIZE = 24,
      QLOOKAHEAD = 2, PITCH_UPDATE = 1, PITCH_GRAN_PER_SUBFRAME = 2,
      PITCH_FILTDELAY = 1.5, PITCH_UPSTEP = 1.5, PITCH_DOWNSTEP = 0.67\<rparr>"

text \<open>Some contents for the local \<^verbatim>\<open>filter_parameters\<close> before it is assigned.\<close>

definition uninit0 :: PitchFilterParam where
  "uninit0 = \<lparr>buffer = replicate 26 7, damper_state = replicate 5 7, interpol_coeff = 99,
     gain = 7, lag = 7, lag_offset = 7, sub_frame = 7, mode = kPitchFilterPost,
     num_samples = 7, index = 7, damper_state_dg = replicate 4 (replicate 5 7),
     gain_mult = replicate 4 7\<rparr>"

text \<open>A persistent state with no history, and one with a ringing damping filter.\<close>

definition state0 :: PitchFiltstr where
  "state0 = \<lparr>ubuf = replicate 16 0, ystate = [0, 0, 0, 0, 0], oldlagp = 8, oldgainp = 0.5\<rparr>"

definition state1 :: PitchFiltstr where
  "state1 = \<lparr>ubuf = replicate 16 0, ystate = [1, 0, 0, 0, 0], oldlagp = 8, oldgainp = 0\<rparr>"

section \<open>Properties\<close>

subsection \<open>Array access and the coefficient table\<close>

lemma rd_Some: "rd xs i = Some v \<longleftrightarrow> 0 \<le> i \<and> i < int (length xs) \<and> v = xs ! nat i"
  by (auto simp: rd_def)

lemma wr_Some: "wr xs i v = Some ys \<longleftrightarrow> 0 \<le> i \<and> i < int (length xs) \<and> ys = xs[nat i := v]"
  by (auto simp: wr_def)

lemma interpol_coeff_at_row:
  assumes "0 \<le> row" "row < 8" "0 \<le> m" "m < 9"
  shows "interpol_coeff_at row m = Some (kIntrpCoef ! nat row ! nat m)"
proof -
  have len: "length kIntrpCoef = 8" by (simp add: kIntrpCoef_def)
  have rows: "\<forall>r \<in> set kIntrpCoef. length r = 9" by (simp add: kIntrpCoef_def)
  have "nat row < length kIntrpCoef" using assms len by simp
  then have "length (kIntrpCoef ! nat row) = 9" using rows nth_mem by blast
  then show ?thesis using assms len by (simp add: interpol_coeff_at_def rd_def)
qed

lemma interpol_coeff_at_outside:
  assumes "row < 0 \<or> 8 \<le> row"
  shows "interpol_coeff_at row m = None"
proof -
  have len: "length kIntrpCoef = 8" by (simp add: kIntrpCoef_def)
  show ?thesis using assms len by (auto simp: interpol_coeff_at_def rd_def)
qed

text \<open>Row 4 of the table, the one a lag with fraction one half selects.\<close>

lemma interpol_coeff_at_4:
  "interpol_coeff_at 4 = rd [0, 0, - (1 / 100000000000000), 1 / 100000000000000,
     99999999999999 / 100000000000000, 1 / 100000000000000, - (1 / 100000000000000), 0, 0]"
  by (rule ext) (simp add: interpol_coeff_at_def kIntrpCoef_def rd_def)

subsection \<open>Evaluating a concrete run\<close>

text \<open>
  The rules that unfold a run on concrete data. With the weak congruence rules the
  simplifier evaluates the first argument of a bind before it enters the rest.
\<close>

lemmas run_simps =
  WebRtcIsac_PitchfilterPre_def WebRtcIsac_PitchfilterPre_la_def
  WebRtcIsac_PitchfilterPre_gains_def WebRtcIsac_PitchfilterPost_def
  FilterFrame_def FilterFrame_lookahead_first_def
  FilterFrame_setup_def FilterFrame_anchors_def FilterFrame_export_def
  FilterSegment_def FilterSegment_sample_def FilterSegment_dg_def Update_def
  lrint_half_even_def rd_def wr_def interpol_coeff_at_4 kDampFilter_def kEnhancer_def
  PITCH_DAMPORDER_def PITCH_FRACS_def PITCH_FRACORDER_def PITCH_SUBFRAMES_def
  short_settings_def uninit0_def state0_def state1_def eval_nat_numeral upto.simps

lemmas run_congs =
  let_weak_cong bind_option_cong_code prod.case_cong_weak option.case_cong_weak

subsection \<open>Update\<close>

lemma Update_total:
  assumes "mode p \<noteq> kPitchFilterPreGain \<or>
           (0 \<le> sub_frame p \<and> sub_frame p < int (length (gain_mult p)))"
  shows "\<exists>p'. Update lrint c p = Some p'"
  using assms by (auto simp: Update_def Let_def rd_def wr_def)

lemma Update_not_gain:
  assumes "mode p \<noteq> kPitchFilterPreGain"
  shows "Update lrint c p =
    Some (p\<lparr>lag_offset := lrint (lag p + PITCH_FILTDELAY c + 0.5),
            interpol_coeff := lrint (8 * (of_int (lrint (lag p + PITCH_FILTDELAY c + 0.5)) -
                                         (lag p + PITCH_FILTDELAY c)) - 0.5)\<rparr>)"
  using assms by (simp add: Update_def Let_def PITCH_FRACS_def)

text \<open>
  What holds for every lag: \<open>Update\<close> sets the lag offset to the rounding of
  \<open>lag + PITCH_FILTDELAY + 0.5\<close>, takes as fraction that offset minus
  \<open>lag + PITCH_FILTDELAY\<close>, and makes \<open>interpol_coeff\<close> point to the row of
  \<open>kIntrpCoef\<close> whose number is the rounding of \<open>8 * fraction - 0.5\<close>. The lag itself
  is not changed. Reading through the pointer gives the entries of that row only when
  the number is one of the 8 rows, which \<open>Update\<close> does not check.
\<close>

theorem Update_lag_offset_and_row:
  assumes "Update lrint c p = Some p'"
  shows "lag_offset p' = lrint (lag p + PITCH_FILTDELAY c + 0.5) \<and>
         interpol_coeff p' =
           lrint (8 * (of_int (lag_offset p') - (lag p + PITCH_FILTDELAY c)) - 0.5) \<and>
         lag p' = lag p \<and>
         (\<forall>m. 0 \<le> interpol_coeff p' \<and> interpol_coeff p' < 8 \<and> 0 \<le> m \<and> m < 9 \<longrightarrow>
            interpol_coeff_at (interpol_coeff p') m =
              Some (kIntrpCoef ! nat (interpol_coeff p') ! nat m))"
proof -
  from assms have
    "lag_offset p' = lrint (lag p + PITCH_FILTDELAY c + 0.5) \<and>
     interpol_coeff p' =
       lrint (8 * (of_int (lag_offset p') - (lag p + PITCH_FILTDELAY c)) - 0.5) \<and>
     lag p' = lag p"
    by (auto simp: Update_def Let_def PITCH_FRACS_def split: if_splits Option.bind_splits)
  then show ?thesis by (simp add: interpol_coeff_at_row)
qed

lemma lrint_half_even_near:
  assumes "\<bar>x - of_int n\<bar> < 1 / 2"
  shows "lrint_half_even x = n"
proof (cases "of_int n \<le> x")
  case True
  then have "\<lfloor>x\<rfloor> = n" using assms by linarith
  then show ?thesis using assms True by (simp add: lrint_half_even_def Let_def)
next
  case False
  then have f: "\<lfloor>x\<rfloor> = n - 1" using assms by linarith
  have "x - of_int (n - 1) > 1 / 2" using assms False by simp
  then show ?thesis using f by (simp add: lrint_half_even_def Let_def)
qed

theorem Update_lag_offset_and_row_witness:
  "\<exists>p'. Update lrint_half_even isac_settings (uninit0\<lparr>lag := 40.3, mode := kPitchFilterPre\<rparr>) = Some p' \<and>
     lag_offset p' = 42 \<and> interpol_coeff p' = 1 \<and> lag p' = 40.3 \<and>
     interpol_coeff_at (interpol_coeff p') 4 = Some 0.79117042386876"
proof -
  let ?p = "uninit0\<lparr>lag := 40.3, mode := kPitchFilterPre\<rparr>"
  obtain p' where u: "Update lrint_half_even isac_settings ?p = Some p'"
    using Update_total [of ?p] by auto
  have l: "lag ?p = 40.3" and d: "PITCH_FILTDELAY isac_settings = 1.5"
    by (simp_all add: isac_settings_def)
  have r1: "lrint_half_even (40.3 + 1.5 + 0.5) = 42"
    by (rule lrint_half_even_near) simp
  have r2: "lrint_half_even (8 * (of_int 42 - (40.3 + 1.5)) - 0.5) = 1"
    by (rule lrint_half_even_near) simp
  from Update_lag_offset_and_row [OF u] have
    off: "lag_offset p' = lrint_half_even (40.3 + 1.5 + 0.5)" and
    row: "interpol_coeff p' = lrint_half_even (8 * (of_int (lag_offset p') - (40.3 + 1.5)) - 0.5)" and
    lag: "lag p' = 40.3" and
    rd: "\<forall>m. 0 \<le> interpol_coeff p' \<and> interpol_coeff p' < 8 \<and> 0 \<le> m \<and> m < 9 \<longrightarrow>
            interpol_coeff_at (interpol_coeff p') m =
              Some (kIntrpCoef ! nat (interpol_coeff p') ! nat m)"
    unfolding l d by blast+
  from off r1 have off': "lag_offset p' = 42" by simp
  from row r2 have row': "interpol_coeff p' = 1" unfolding off' by simp
  from rd [rule_format, of 4] have "interpol_coeff_at (interpol_coeff p') 4 = Some (kIntrpCoef ! 1 ! 4)"
    unfolding row' by simp
  then have "interpol_coeff_at (interpol_coeff p') 4 = Some 0.79117042386876"
    by (simp add: kIntrpCoef_def)
  with u off' row' lag show ?thesis by blast
qed

lemma lrint_half_even_tie_odd: "lrint_half_even (of_int (2 * k + 1) + 1 / 2) = 2 * k + 2"
proof -
  have "\<lfloor>(of_int (2 * k + 1) + 1 / 2 :: real)\<rfloor> = 2 * k + 1" by linarith
  then show ?thesis by (simp add: lrint_half_even_def Let_def)
qed

lemma mac_loop_None: "b m = None \<Longrightarrow> mac_loop a b (m # ms) acc = None"
  by (cases "a m") simp_all

lemma FilterSegment_sample_row_outside:
  assumes "interpol_coeff (parameters s) < 0 \<or> 8 \<le> interpol_coeff (parameters s)"
  shows "FilterSegment_sample in_data s = None"
proof -
  have u: "[0..PITCH_FRACORDER - 1] = 0 # [1..8]"
    by (simp add: PITCH_FRACORDER_def upto_rec1)
  have "interpol_coeff_at (interpol_coeff (parameters s)) 0 = None"
    using assms by (rule interpol_coeff_at_outside)
  then show ?thesis
    unfolding FilterSegment_sample_def Let_def u
    by (cases "shift_states (rev [1..PITCH_DAMPORDER - 1]) (damper_state (parameters s))")
       (simp_all add: mac_loop_None)
qed

text \<open>
  C4: \<open>Update\<close> is to select, for every lag, the row of the 8-row table \<open>kIntrpCoef\<close>
  whose number is the rounding of \<open>8 * fraction - 0.5\<close>. It does not for the lag 41.5:
  with \<^verbatim>\<open>PITCH_FILTDELAY\<close> 1.5 and the C library's rounding (ties to even) the offset
  is the rounding of 43.5, which is 44, the fraction is 1, and the row number is the
  rounding of 7.5, which is 8. \<open>Update\<close> stores \<^verbatim>\<open>kIntrpCoef[8]\<close>, one row past the
  table; no coefficient can be read there, and the segment filtered next fails on its
  first sample. The lag 41.5 is the first one that a frame filters with when the lag
  of the frame before is 41 and the lag of its first sub-frame is 43.5
  (\<open>PitchfilterPre_lag_tie_frame\<close> at the end).
\<close>

theorem Update_selects_row_past_table:
  "Update lrint_half_even isac_settings
     (uninit0\<lparr>lag := 41.5, mode := kPitchFilterPre, num_samples := 12\<rparr>) =
     Some (uninit0\<lparr>lag := 41.5, mode := kPitchFilterPre, num_samples := 12,
                   lag_offset := 44, interpol_coeff := 8\<rparr>) \<and>
   lrint_half_even (8 * (of_int 44 - (41.5 + PITCH_FILTDELAY isac_settings)) - 0.5) = 8 \<and>
   length kIntrpCoef = 8 \<and>
   interpol_coeff_at 8 0 = None \<and>
   FilterSegment isac_settings in_data
     (uninit0\<lparr>lag := 41.5, mode := kPitchFilterPre, num_samples := 12,
              lag_offset := 44, interpol_coeff := 8\<rparr>) out dg = None"
proof -
  let ?p = "uninit0\<lparr>lag := 41.5, mode := kPitchFilterPre, num_samples := 12\<rparr>"
  let ?p' = "?p\<lparr>lag_offset := 44, interpol_coeff := 8\<rparr>"
  have a: "lag ?p + PITCH_FILTDELAY isac_settings + 0.5 = (of_int (2 * 21 + 1) + 1 / 2 :: real)"
    by (simp add: isac_settings_def)
  have off: "lrint_half_even (lag ?p + PITCH_FILTDELAY isac_settings + 0.5) = 44"
    unfolding a using lrint_half_even_tie_odd [of 21] by simp
  have b: "8 * (of_int 44 - (lag ?p + PITCH_FILTDELAY isac_settings)) - 0.5
      = (of_int (2 * 3 + 1) + 1 / 2 :: real)"
    by (simp add: isac_settings_def)
  have row: "lrint_half_even (8 * (of_int 44 - (lag ?p + PITCH_FILTDELAY isac_settings)) - 0.5) = 8"
    unfolding b using lrint_half_even_tie_odd [of 3] by simp
  have u0: "Update lrint_half_even isac_settings ?p =
    Some (?p\<lparr>lag_offset := lrint_half_even (lag ?p + PITCH_FILTDELAY isac_settings + 0.5),
            interpol_coeff := lrint_half_even
              (8 * (of_int (lrint_half_even (lag ?p + PITCH_FILTDELAY isac_settings + 0.5)) -
                    (lag ?p + PITCH_FILTDELAY isac_settings)) - 0.5)\<rparr>)"
    by (rule Update_not_gain) simp
  have u: "Update lrint_half_even isac_settings ?p = Some ?p'"
    unfolding u0 off row by simp
  have r: "lrint_half_even (8 * (of_int 44 - (41.5 + PITCH_FILTDELAY isac_settings)) - 0.5) = 8"
    using row by simp
  have len: "length kIntrpCoef = 8" by (simp add: kIntrpCoef_def)
  have rd8: "interpol_coeff_at 8 0 = None" by (rule interpol_coeff_at_outside) simp
  have s: "\<And>s. interpol_coeff (parameters s) = 8 \<Longrightarrow> FilterSegment_sample in_data s = None"
    by (rule FilterSegment_sample_row_outside) simp
  have l: "FilterSegment_loop in_data 12 t = None" if "interpol_coeff (parameters t) = 8" for t
  proof -
    have e: "(12::nat) = Suc 11" by simp
    show ?thesis unfolding e FilterSegment_loop.simps s [OF that] by simp
  qed
  have f: "FilterSegment isac_settings in_data ?p' out dg = None"
    unfolding FilterSegment_def Let_def by (simp add: l)
  from u r len rd8 f show ?thesis by simp
qed

text \<open>
  C6: there are lags for which the row number that \<open>Update\<close> derives is outside 0..7,
  and nothing checks it. With the C library's rounding (ties to even), every lag that
  lies \<open>PITCH_FILTDELAY\<close> below an odd integer gets the row number 8: \<open>Update\<close> stores
  it, no entry can be read through the pointer, and the next sample of
  \<open>FilterSegment\<close> fails on that read.
\<close>

theorem Update_row_outside_table:
  "Update lrint_half_even c
     (p\<lparr>lag := of_int (2 * k + 1) - PITCH_FILTDELAY c, mode := kPitchFilterPre\<rparr>) =
     Some (p\<lparr>lag := of_int (2 * k + 1) - PITCH_FILTDELAY c, mode := kPitchFilterPre,
             lag_offset := 2 * k + 2, interpol_coeff := 8\<rparr>) \<and>
   interpol_coeff_at 8 m = None \<and>
   FilterSegment_sample in_data
     \<lparr>parameters = p\<lparr>lag := of_int (2 * k + 1) - PITCH_FILTDELAY c, mode := kPitchFilterPre,
                      lag_offset := 2 * k + 2, interpol_coeff := 8\<rparr>,
      out_data = out, out_dg = dg, pos = i, pos_lag = j\<rparr> = None"
proof -
  let ?l = "of_int (2 * k + 1) - PITCH_FILTDELAY c"
  have a: "?l + PITCH_FILTDELAY c + 0.5 = (of_int (2 * k + 1) + 1 / 2 :: real)"
    by simp
  have off: "lrint_half_even (?l + PITCH_FILTDELAY c + 0.5) = 2 * k + 2"
    unfolding a by (rule lrint_half_even_tie_odd)
  have b: "8 * (of_int (2 * k + 2) - (?l + PITCH_FILTDELAY c)) - 0.5
      = (of_int (2 * 3 + 1) + 1 / 2 :: real)"
    by simp
  have row: "lrint_half_even (8 * (of_int (2 * k + 2) - (?l + PITCH_FILTDELAY c)) - 0.5) = 8"
    unfolding b using lrint_half_even_tie_odd [of 3] by simp
  let ?p = "p\<lparr>lag := ?l, mode := kPitchFilterPre\<rparr>"
  have u: "Update lrint_half_even c ?p =
    Some (?p\<lparr>lag_offset := lrint_half_even (lag ?p + PITCH_FILTDELAY c + 0.5),
            interpol_coeff := lrint_half_even
              (8 * (of_int (lrint_half_even (lag ?p + PITCH_FILTDELAY c + 0.5)) -
                    (lag ?p + PITCH_FILTDELAY c)) - 0.5)\<rparr>)"
    by (rule Update_not_gain) simp
  have l: "lag ?p = ?l" by simp
  show ?thesis
    unfolding u l off row
    by (simp add: interpol_coeff_at_outside FilterSegment_sample_row_outside)
qed

theorem Update_row_outside_table_witness:
  "Update lrint_half_even isac_settings (uninit0\<lparr>lag := 21.5, mode := kPitchFilterPre\<rparr>) =
     Some (uninit0\<lparr>lag := 21.5, mode := kPitchFilterPre, lag_offset := 24, interpol_coeff := 8\<rparr>) \<and>
   interpol_coeff_at 8 0 = None"
  using Update_row_outside_table [where c = isac_settings and p = uninit0 and k = 11 and m = 0]
  by (simp add: isac_settings_def)

text \<open>
  The same happens with rounding to nearest where ties go up (\<open>round\<close>), for every lag
  that lies \<open>PITCH_FILTDELAY\<close> below an integer. And it happens inside a call with
  ordinary arguments: between the lags 9 and 10 the interpolation passes 9.5, whose row
  number is 8, and the call does not return.
\<close>

lemma Update_row_outside_table_round:
  "Update round c (p\<lparr>lag := of_int n - PITCH_FILTDELAY c, mode := kPitchFilterPre\<rparr>) =
     Some (p\<lparr>lag := of_int n - PITCH_FILTDELAY c, mode := kPitchFilterPre,
             lag_offset := n + 1, interpol_coeff := 8\<rparr>)"
proof -
  let ?l = "of_int n - PITCH_FILTDELAY c"
  have a: "?l + PITCH_FILTDELAY c + 0.5 = (of_int n + 1 / 2 :: real)"
    by simp
  have r: "\<And>k. round (of_int k + 1 / 2 :: real) = k + 1"
    by (simp add: round_def)
  have off: "round (?l + PITCH_FILTDELAY c + 0.5) = n + 1"
    unfolding a by (rule r)
  have b: "8 * (of_int (n + 1) - (?l + PITCH_FILTDELAY c)) - 0.5 = (of_int 7 + 1 / 2 :: real)"
    by simp
  have row: "round (8 * (of_int (n + 1) - (?l + PITCH_FILTDELAY c)) - 0.5) = 8"
    unfolding b using r [of 7] by simp
  let ?p = "p\<lparr>lag := ?l, mode := kPitchFilterPre\<rparr>"
  have u: "Update round c ?p =
    Some (?p\<lparr>lag_offset := round (lag ?p + PITCH_FILTDELAY c + 0.5),
            interpol_coeff := round
              (8 * (of_int (round (lag ?p + PITCH_FILTDELAY c + 0.5)) -
                    (lag ?p + PITCH_FILTDELAY c)) - 0.5)\<rparr>)"
    by (rule Update_not_gain) simp
  have l: "lag ?p = ?l" by simp
  show ?thesis
    unfolding u l off row by simp
qed

lemma PitchfilterPre_lag_tie_run:
  "WebRtcIsac_PitchfilterPre lrint_half_even short_settings uninit0 (replicate 8 0)
     (replicate 8 0) state0 [8, 9, 10, 9] [0.5, 0.4, 0.3, 0.2] = None"
  by (simp add: run_simps interpol_coeff_at_def kIntrpCoef_def cong: run_congs)

text \<open>
  C9: in mode \<^verbatim>\<open>kPitchFilterPreGain\<close>, \<open>Update\<close> adds 0.2 to the gain multiplier of the
  current sub-frame and limits it to 1.0, subtracts 0.2 from the multiplier of the
  sub-frame before when the current one is not the first, and leaves the others.
\<close>

theorem Update_gain_mult:
  assumes "mode p = kPitchFilterPreGain"
    and "0 \<le> sub_frame p" and "sub_frame p < int (length (gain_mult p))"
  shows "\<exists>p'. Update lrint c p = Some p' \<and>
     length (gain_mult p') = length (gain_mult p) \<and>
     gain_mult p' ! nat (sub_frame p) = min 1 (gain_mult p ! nat (sub_frame p) + 0.2) \<and>
     (0 < sub_frame p \<longrightarrow>
        gain_mult p' ! nat (sub_frame p - 1) = gain_mult p ! nat (sub_frame p - 1) - 0.2) \<and>
     (\<forall>j. 0 \<le> j \<and> j < int (length (gain_mult p)) \<and> j \<noteq> sub_frame p \<and> j \<noteq> sub_frame p - 1 \<longrightarrow>
        gain_mult p' ! nat j = gain_mult p ! nat j)"
  using assms
  by (auto simp: Update_def Let_def rd_def wr_def nth_list_update min_def)

theorem Update_gain_mult_witness:
  "\<exists>p'. Update lrint_half_even isac_settings
       (uninit0\<lparr>mode := kPitchFilterPreGain, sub_frame := 2, gain_mult := [0, 0.4, 0.9, 0.3]\<rparr>) = Some p' \<and>
     length (gain_mult p') = 4 \<and> gain_mult p' ! 0 = 0 \<and> gain_mult p' ! 1 = 0.2 \<and>
     gain_mult p' ! 2 = 1 \<and> gain_mult p' ! 3 = 0.3"
proof -
  let ?p = "uninit0\<lparr>mode := kPitchFilterPreGain, sub_frame := 2, gain_mult := [0, 0.4, 0.9, 0.3]\<rparr>"
  have h: "mode ?p = kPitchFilterPreGain" "0 \<le> sub_frame ?p"
    "sub_frame ?p < int (length (gain_mult ?p))"
    by simp_all
  from Update_gain_mult [OF h, of lrint_half_even isac_settings] obtain p' where
    u: "Update lrint_half_even isac_settings ?p = Some p'"
    and len: "length (gain_mult p') = length (gain_mult ?p)"
    and cur: "gain_mult p' ! nat (sub_frame ?p) = min 1 (gain_mult ?p ! nat (sub_frame ?p) + 0.2)"
    and prev: "0 < sub_frame ?p \<longrightarrow>
        gain_mult p' ! nat (sub_frame ?p - 1) = gain_mult ?p ! nat (sub_frame ?p - 1) - 0.2"
    and rest: "\<forall>j. 0 \<le> j \<and> j < int (length (gain_mult ?p)) \<and> j \<noteq> sub_frame ?p \<and>
        j \<noteq> sub_frame ?p - 1 \<longrightarrow> gain_mult p' ! nat j = gain_mult ?p ! nat j"
    by blast
  from rest [rule_format, of 0] rest [rule_format, of 3]
  have "gain_mult p' ! 0 = 0" and "gain_mult p' ! 3 = 0.3"
    by simp_all
  then show ?thesis using u len cur prev by simp
qed

subsection \<open>What FilterFrame leaves to its caller\<close>

text \<open>
  C2: a call of \<^verbatim>\<open>WebRtcIsac_PitchfilterPre_gains\<close> that returns leaves the persistent
  state (history, damper memory, last lag and last gain) as it was.
\<close>

theorem PitchfilterPre_gains_state_unchanged:
  assumes "WebRtcIsac_PitchfilterPre_gains lrint c uninit in_data out dg pf_state lags gains =
             Some (pf_state', gains', out', dg')"
  shows "pf_state' = pf_state"
  using assms unfolding WebRtcIsac_PitchfilterPre_gains_def FilterFrame_def
  by (auto split: Option.bind_splits prod.splits)

theorem PitchfilterPre_gains_state_unchanged_witness:
  "\<exists>g out' dg'. WebRtcIsac_PitchfilterPre_gains lrint_half_even short_settings uninit0
      [0, 0, 0, 0, 0, 0, 1, 0, 0, 0] (replicate 10 0) (replicate 4 (replicate 10 9)) state1
      [8, 8, 8, 8] [0.5, 0.5, 0.5, 0.5] = Some (state1, g, out', dg')"
proof -
  have "\<not> Option.is_none (WebRtcIsac_PitchfilterPre_gains lrint_half_even short_settings uninit0
      [0, 0, 0, 0, 0, 0, 1, 0, 0, 0] (replicate 10 0) (replicate 4 (replicate 10 9)) state1
      [8, 8, 8, 8] [0.5, 0.5, 0.5, 0.5])"
    by (simp add: run_simps cong: run_congs)
  then obtain s g out' dg' where
    r: "WebRtcIsac_PitchfilterPre_gains lrint_half_even short_settings uninit0
      [0, 0, 0, 0, 0, 0, 1, 0, 0, 0] (replicate 10 0) (replicate 4 (replicate 10 9)) state1
      [8, 8, 8, 8] [0.5, 0.5, 0.5, 0.5] = Some (s, g, out', dg')"
    by (auto simp: Option.is_none_def)
  from PitchfilterPre_gains_state_unchanged [OF r] r show ?thesis by blast
qed

lemma enhance_gains_Some:
  "enhance_gains ns gains = Some gains' \<Longrightarrow> distinct ns \<Longrightarrow>
     length gains' = length gains \<and> (\<forall>n \<in> set ns. 0 \<le> n \<and> n < int (length gains)) \<and>
     (\<forall>n. 0 \<le> n \<and> n < int (length gains) \<longrightarrow>
        gains' ! nat n = (if n \<in> set ns then gains ! nat n * - kEnhancer else gains ! nat n))"
proof (induction ns arbitrary: gains)
  case Nil
  then show ?case by simp
next
  case (Cons a ns)
  from Cons.prems obtain g1 where a: "0 \<le> a" "a < int (length gains)"
    and g1: "g1 = gains[nat a := gains ! nat a * - kEnhancer]"
    and rest: "enhance_gains ns g1 = Some gains'"
    by (auto simp: rd_Some wr_Some split: Option.bind_splits)
  from Cons.prems have d: "distinct ns" "a \<notin> set ns" by auto
  from Cons.IH [OF rest d(1)] have
    len: "length gains' = length g1" and
    rng: "\<forall>n \<in> set ns. 0 \<le> n \<and> n < int (length g1)" and
    ih: "\<forall>n. 0 \<le> n \<and> n < int (length g1) \<longrightarrow>
        gains' ! nat n = (if n \<in> set ns then g1 ! nat n * - kEnhancer else g1 ! nat n)"
    by auto
  show ?case
  proof (intro conjI allI impI)
    show "length gains' = length gains" using len g1 by simp
  next
    show "\<forall>n \<in> set (a # ns). 0 \<le> n \<and> n < int (length gains)" using rng a g1 by simp
  next
    fix n assume n: "0 \<le> n \<and> n < int (length gains)"
    then have "gains' ! nat n = (if n \<in> set ns then g1 ! nat n * - kEnhancer else g1 ! nat n)"
      using ih g1 by simp
    moreover have "nat n = nat a \<longleftrightarrow> n = a" using n a by auto
    ultimately show "gains' ! nat n =
        (if n \<in> set (a # ns) then gains ! nat n * - kEnhancer else gains ! nat n)"
      using d g1 n a by (auto simp: nth_list_update)
  qed
qed

lemma FilterFrame_gains:
  assumes "FilterFrame lrint c uninit in_data st lags gains mode1 out dg = Some (st', gains', out', dg')"
  shows "\<exists>p dg0. FilterFrame_setup c uninit st gains mode1 dg = Some (p, gains', dg0)"
  using assms unfolding FilterFrame_def
  by (auto split: Option.bind_splits prod.splits)

lemma FilterFrame_setup_gains:
  assumes "FilterFrame_setup c uninit st gains mode1 dg = Some (p, gains', dg0)"
  shows "if mode1 = kPitchFilterPost then enhance_gains [0..PITCH_SUBFRAMES - 1] gains = Some gains'
         else gains' = gains"
  using assms unfolding FilterFrame_setup_def Let_def
  by (auto split: Option.bind_splits if_splits)

text \<open>
  C10: a call of \<^verbatim>\<open>WebRtcIsac_PitchfilterPost\<close> that returns has overwritten the caller's
  \<^verbatim>\<open>gains\<close>: each of the first 4 entries is -1.3 times what it was on entry, and nothing
  puts the old values back. (An array with fewer than 4 entries cannot be passed; entries
  after the fourth are not touched.)
\<close>

theorem PitchfilterPost_scales_gains:
  assumes "WebRtcIsac_PitchfilterPost lrint c uninit in_data out pf_state lags gains =
             Some (pf_state', gains', out', dg')"
  shows "length gains' = length gains \<and> 4 \<le> length gains \<and>
         (\<forall>n < length gains. gains' ! n = (if n < 4 then - 1.3 * gains ! n else gains ! n))"
proof -
  from assms obtain p dg0 where
    "FilterFrame_setup c uninit pf_state gains kPitchFilterPost [] = Some (p, gains', dg0)"
    unfolding WebRtcIsac_PitchfilterPost_def by (blast dest: FilterFrame_gains)
  then have e: "enhance_gains [0..PITCH_SUBFRAMES - 1] gains = Some gains'"
    using FilterFrame_setup_gains by fastforce
  have s: "set [0..PITCH_SUBFRAMES - 1] = {0..3}" by (simp add: PITCH_SUBFRAMES_def)
  have d: "distinct [0..PITCH_SUBFRAMES - 1]" by simp
  note r = enhance_gains_Some [OF e d, unfolded s]
  have four: "4 \<le> length gains"
  proof -
    from r have "(3::int) \<in> {0..3} \<longrightarrow> 0 \<le> (3::int) \<and> 3 < int (length gains)" by blast
    then show ?thesis by simp
  qed
  show ?thesis
  proof (intro conjI allI impI)
    show "length gains' = length gains" using r by simp
    show "4 \<le> length gains" by (rule four)
    fix n assume n: "n < length gains"
    from r have "0 \<le> int n \<and> int n < int (length gains) \<longrightarrow>
        gains' ! nat (int n) =
          (if int n \<in> {0..3} then gains ! nat (int n) * - kEnhancer else gains ! nat (int n))"
      by blast
    with n have "gains' ! nat (int n) =
        (if int n \<in> {0..3} then gains ! nat (int n) * - kEnhancer else gains ! nat (int n))"
      by simp
    then show "gains' ! n = (if n < 4 then - 1.3 * gains ! n else gains ! n)"
      by (auto simp: kEnhancer_def)
  qed
qed

theorem PitchfilterPost_scales_gains_witness:
  "\<exists>st' out' dg'. WebRtcIsac_PitchfilterPost lrint_half_even short_settings uninit0
      [0, 0, 0, 0, 0, 0, 1, 0] (replicate 8 0) state1 [8, 8, 8, 8] [0.5, 0.4, 0.3, 0.2] =
        Some (st', [- 0.65, - 0.52, - 0.39, - 0.26], out', dg')"
proof -
  have "\<not> Option.is_none (WebRtcIsac_PitchfilterPost lrint_half_even short_settings uninit0
      [0, 0, 0, 0, 0, 0, 1, 0] (replicate 8 0) state1 [8, 8, 8, 8] [0.5, 0.4, 0.3, 0.2])"
    by (simp add: run_simps cong: run_congs)
  then obtain st' g out' dg' where
    r: "WebRtcIsac_PitchfilterPost lrint_half_even short_settings uninit0
      [0, 0, 0, 0, 0, 0, 1, 0] (replicate 8 0) state1 [8, 8, 8, 8] [0.5, 0.4, 0.3, 0.2] =
        Some (st', g, out', dg')"
    by (auto simp: Option.is_none_def)
  from PitchfilterPost_scales_gains [OF r] have
    len: "length g = 4" and
    all: "\<forall>n < 4. g ! n = (if n < 4 then - 1.3 * [0.5, 0.4, 0.3, 0.2 :: real] ! n else [0.5, 0.4, 0.3, 0.2] ! n)"
    by simp_all
  from all have "g ! 0 = - 0.65" "g ! 1 = - 0.52" "g ! 2 = - 0.39" "g ! 3 = - 0.26"
    by simp_all
  with len have "g = [- 0.65, - 0.52, - 0.39, - 0.26]"
    by (auto simp: list_eq_iff_nth_eq less_Suc_eq eval_nat_numeral)
  with r show ?thesis by blast
qed

subsection \<open>One sample of FilterSegment\<close>

lemma mac_loop_Some:
  "mac_loop a b ms acc = Some r \<Longrightarrow>
     r = acc + (\<Sum>m\<leftarrow>ms. the (a m) * the (b m)) \<and> (\<forall>m \<in> set ms. a m \<noteq> None \<and> b m \<noteq> None)"
proof (induction ms arbitrary: acc)
  case Nil
  then show ?case by simp
next
  case (Cons m ms)
  from Cons.prems obtain x y where x: "a m = Some x" and y: "b m = Some y"
    and rest: "mac_loop a b ms (acc + x * y) = Some r"
    by (auto split: Option.bind_splits)
  from Cons.IH [OF rest] x y show ?case by simp
qed

lemma shift_states_Some:
  assumes "shift_states (rev [1..PITCH_DAMPORDER - 1]) ds = Some ds'"
  shows "5 \<le> length ds \<and> ds' = ds[4 := ds ! 3, 3 := ds ! 2, 2 := ds ! 1, 1 := ds ! 0]"
proof -
  have u: "rev [1..PITCH_DAMPORDER - 1] = [4, 3, 2, 1]"
    by (simp add: PITCH_DAMPORDER_def upto_rec1)
  from assms show ?thesis
    unfolding u
    by (auto simp: rd_Some wr_Some nth_list_update split: Option.bind_splits)
qed

lemma FilterSegment_dg_Some:
  assumes "FilterSegment_dg p sum1 dg = Some (p', dg')"
  shows "\<exists>dsdg. p' = p\<lparr>damper_state_dg := dsdg\<rparr>"
  using assms unfolding FilterSegment_dg_def Let_def
  by (auto split: Option.bind_splits)

lemma damp_sum:
  assumes "mac_loop (rd ds) (rd kDampFilter) [0..PITCH_DAMPORDER - 1] 0 = Some r"
  shows "r = (\<Sum>m<5. ds ! m * kDampFilter ! m)"
proof -
  have u: "[0..PITCH_DAMPORDER - 1] = [0, 1, 2, 3, 4]"
    by (simp add: PITCH_DAMPORDER_def upto_rec1)
  have k: "length kDampFilter = 5" by (simp add: kDampFilter_def)
  from mac_loop_Some [OF assms] have
    r: "r = 0 + (\<Sum>m\<leftarrow>[0..PITCH_DAMPORDER - 1]. the (rd ds m) * the (rd kDampFilter m))"
    and d: "\<forall>m \<in> set [0..PITCH_DAMPORDER - 1]. rd ds m \<noteq> None \<and> rd kDampFilter m \<noteq> None"
    by blast+
  from d have "rd ds 4 \<noteq> None" unfolding u by simp
  then have len: "5 \<le> length ds" by (simp add: rd_def split: if_splits)
  have s: "{..<5::nat} = {0, 1, 2, 3, 4}" by auto
  have a: "\<And>m. 0 \<le> m \<Longrightarrow> m < 5 \<Longrightarrow> the (rd ds m) = ds ! nat m"
    using len by (simp add: rd_def)
  have b: "\<And>m. 0 \<le> m \<Longrightarrow> m < 5 \<Longrightarrow> the (rd kDampFilter m) = kDampFilter ! nat m"
    using k by (simp add: rd_def)
  show ?thesis unfolding r u s by (simp add: a b)
qed

lemma FilterSegment_sample_Some:
  assumes "FilterSegment_sample in_data s = Some s'"
  shows "\<exists>sum1 dsdg.
     mac_loop (\<lambda>m. rd (buffer (parameters s)) (pos_lag s + m))
        (interpol_coeff_at (interpol_coeff (parameters s))) [0..PITCH_FRACORDER - 1] 0.0 = Some sum1 \<and>
     5 \<le> length (damper_state (parameters s)) \<and>
     0 \<le> index (parameters s) \<and> index (parameters s) < int (length in_data) \<and>
     index (parameters s) < int (length (out_data s)) \<and>
     0 \<le> pos s \<and> pos s < int (length (buffer (parameters s))) \<and>
     damper_state (parameters s') =
       (damper_state (parameters s))
         [4 := damper_state (parameters s) ! 3, 3 := damper_state (parameters s) ! 2,
          2 := damper_state (parameters s) ! 1, 1 := damper_state (parameters s) ! 0,
          0 := gain (parameters s) * sum1] \<and>
     out_data s' = (out_data s)[nat (index (parameters s)) :=
        in_data ! nat (index (parameters s)) - (\<Sum>m<5. damper_state (parameters s') ! m * kDampFilter ! m)] \<and>
     parameters s' = (parameters s)
       \<lparr>damper_state := damper_state (parameters s'),
        damper_state_dg := dsdg,
        buffer := (buffer (parameters s))[nat (pos s) :=
           in_data ! nat (index (parameters s)) + out_data s' ! nat (index (parameters s))],
        index := index (parameters s) + 1\<rparr> \<and>
     pos s' = pos s + 1 \<and> pos_lag s' = pos_lag s + 1 \<and>
     (mode (parameters s) \<noteq> kPitchFilterPreGain \<longrightarrow>
        dsdg = damper_state_dg (parameters s) \<and> out_dg s' = out_dg s)"
  using assms unfolding FilterSegment_sample_def Let_def
  by (auto simp: rd_Some wr_Some split: Option.bind_splits prod.splits if_splits
      dest!: shift_states_Some damp_sum FilterSegment_dg_Some)


lemma FilterSegment_loop_add:
  "FilterSegment_loop in_data (a + b) s =
     Option.bind (FilterSegment_loop in_data a s) (FilterSegment_loop in_data b)"
  by (induction a arbitrary: s) (simp_all split: Option.bind_splits)

lemma FilterSegment_loop_rule:
  assumes "FilterSegment_loop in_data n s = Some t" and "I 0 s"
    and "\<And>k u u'. k < n \<Longrightarrow> I k u \<Longrightarrow> FilterSegment_sample in_data u = Some u' \<Longrightarrow> I (Suc k) u'"
  shows "I n t"
  using assms
proof (induction n arbitrary: s I)
  case 0
  then show ?case by simp
next
  case (Suc n)
  from Suc.prems(1) obtain s1 where s1: "FilterSegment_sample in_data s = Some s1"
    and rest: "FilterSegment_loop in_data n s1 = Some t"
    by (auto split: Option.bind_splits)
  have a: "I (Suc 0) s1" using Suc.prems(3) [of 0 s s1] Suc.prems(2) s1 by simp
  have "(\<lambda>k. I (Suc k)) n t"
  proof (rule Suc.IH [OF rest])
    show "I (Suc 0) s1" by (rule a)
  next
    fix k u u' assume "k < n" "I (Suc k) u" "FilterSegment_sample in_data u = Some u'"
    then show "I (Suc (Suc k)) u'" using Suc.prems(3) [of "Suc k" u u'] by simp
  qed
  then show ?case .
qed

lemma FilterFrame_granules_rule:
  assumes "FilterFrame_granules lrint c in_data gd ld n s = Some t" and "I 0 s"
    and "\<And>k p out dg p1 r. k < n \<Longrightarrow> I k (p, out, dg) \<Longrightarrow>
           Update lrint c (p\<lparr>gain := gain p + gd, lag := lag p + ld\<rparr>) = Some p1 \<Longrightarrow>
           FilterSegment c in_data p1 out dg = Some r \<Longrightarrow> I (Suc k) r"
  shows "I n t"
  using assms
proof (induction n arbitrary: s I)
  case 0
  then show ?case by simp
next
  case (Suc n)
  obtain p out dg where s: "s = (p, out, dg)" by (cases s) auto
  from Suc.prems(1) obtain p1 r where
    u: "Update lrint c (p\<lparr>gain := gain p + gd, lag := lag p + ld\<rparr>) = Some p1"
    and f: "FilterSegment c in_data p1 out dg = Some r"
    and rest: "FilterFrame_granules lrint c in_data gd ld n r = Some t"
    unfolding s by (auto simp: Let_def split: Option.bind_splits)
  have a: "I (Suc 0) r" using Suc.prems(3) [of 0 p out dg p1 r] Suc.prems(2) u f s by simp
  have "(\<lambda>k. I (Suc k)) n t"
  proof (rule Suc.IH [OF rest])
    show "I (Suc 0) r" by (rule a)
  next
    fix k p out dg p1 r
    assume "k < n" "I (Suc k) (p, out, dg)"
      "Update lrint c (p\<lparr>gain := gain p + gd, lag := lag p + ld\<rparr>) = Some p1"
      "FilterSegment c in_data p1 out dg = Some r"
    then show "I (Suc (Suc k)) r" using Suc.prems(3) [of "Suc k" p out dg p1 r] by simp
  qed
  then show ?case .
qed

lemma FilterFrame_subframes_rule:
  assumes "FilterFrame_subframes lrint c in_data lags gains ms s = Some t" and "I 0 s"
    and "\<And>k ol og p out dg lm gm r. k < length ms \<Longrightarrow> I k (ol, og, p, out, dg) \<Longrightarrow>
           rd lags (ms ! k) = Some lm \<Longrightarrow> rd gains (ms ! k) = Some gm \<Longrightarrow>
           FilterFrame_granules lrint c in_data
             ((gm - og) / of_int (PITCH_GRAN_PER_SUBFRAME c))
             ((lm - ol) / of_int (PITCH_GRAN_PER_SUBFRAME c))
             (nat (PITCH_GRAN_PER_SUBFRAME c))
             (p\<lparr>sub_frame := ms ! k, lag := ol, gain := og\<rparr>, out, dg) = Some r \<Longrightarrow>
           I (Suc k) (lm, gm, r)"
  shows "I (length ms) t"
  using assms
proof (induction ms arbitrary: s I)
  case Nil
  then show ?case by simp
next
  case (Cons m ms)
  obtain ol og p out dg where s: "s = (ol, og, p, out, dg)" by (cases s) auto
  from Cons.prems(1) obtain lm gm r where
    lm: "rd lags m = Some lm" and gm: "rd gains m = Some gm"
    and g: "FilterFrame_granules lrint c in_data
             ((gm - og) / of_int (PITCH_GRAN_PER_SUBFRAME c))
             ((lm - ol) / of_int (PITCH_GRAN_PER_SUBFRAME c))
             (nat (PITCH_GRAN_PER_SUBFRAME c))
             (p\<lparr>sub_frame := m, lag := ol, gain := og\<rparr>, out, dg) = Some r"
    and rest: "FilterFrame_subframes lrint c in_data lags gains ms (lm, gm, r) = Some t"
    unfolding s by (auto simp: Let_def split: Option.bind_splits prod.splits)
  have a: "I (Suc 0) (lm, gm, r)"
    using Cons.prems(3) [of 0 ol og p out dg lm gm r] Cons.prems(2) lm gm g s by simp
  have "(\<lambda>k. I (Suc k)) (length ms) t"
  proof (rule Cons.IH [OF rest])
    show "I (Suc 0) (lm, gm, r)" by (rule a)
  next
    fix k ol og p out dg lm gm r
    assume "k < length ms" "I (Suc k) (ol, og, p, out, dg)"
      "rd lags (ms ! k) = Some lm" "rd gains (ms ! k) = Some gm"
      "FilterFrame_granules lrint c in_data
             ((gm - og) / of_int (PITCH_GRAN_PER_SUBFRAME c))
             ((lm - ol) / of_int (PITCH_GRAN_PER_SUBFRAME c))
             (nat (PITCH_GRAN_PER_SUBFRAME c))
             (p\<lparr>sub_frame := ms ! k, lag := ol, gain := og\<rparr>, out, dg) = Some r"
    then show "I (Suc (Suc k)) (lm, gm, r)"
      using Cons.prems(3) [of "Suc k" ol og p out dg lm gm r] by simp
  qed
  then show ?case by simp
qed


lemma mac_loop_zero:
  "mac_loop a b ms acc = Some r \<Longrightarrow> \<forall>m \<in> set ms. \<forall>x. a m = Some x \<longrightarrow> x = 0 \<Longrightarrow> r = acc"
proof (induction ms arbitrary: acc)
  case Nil
  then show ?case by simp
next
  case (Cons m ms)
  from Cons.prems(1) obtain x y where x: "a m = Some x" and y: "b m = Some y"
    and rest: "mac_loop a b ms (acc + x * y) = Some r"
    by (auto split: Option.bind_splits)
  from Cons.prems(2) x have "x = 0" by simp
  moreover from Cons.IH [OF rest] Cons.prems(2) have "r = acc + x * y" by simp
  ultimately show ?case by simp
qed

lemma Update_preserves:
  assumes "Update lrint c p = Some p'"
  shows "buffer p' = buffer p \<and> damper_state p' = damper_state p \<and> gain p' = gain p \<and>
         index p' = index p \<and> num_samples p' = num_samples p \<and> mode p' = mode p \<and>
         sub_frame p' = sub_frame p \<and> lag p' = lag p \<and>
         damper_state_dg p' = damper_state_dg p"
  using assms by (auto simp: Update_def Let_def split: if_splits Option.bind_splits)

lemma rd_zero: "set xs \<subseteq> {0} \<Longrightarrow> rd xs i = Some x \<Longrightarrow> x = (0::real)"
proof -
  assume a: "set xs \<subseteq> {0}" and r: "rd xs i = Some x"
  from r have "nat i < length xs" and "x = xs ! nat i" by (auto simp: rd_Some)
  then have "x \<in> set xs" by simp
  with a show ?thesis by auto
qed

text \<open>A sample whose damped value is zero: the output is the input.\<close>

lemma FilterSegment_sample_silent:
  assumes s': "FilterSegment_sample in_data s = Some s'"
    and ds: "\<forall>m<4. damper_state (parameters s) ! m = 0"
    and q: "gain (parameters s) = 0 \<or>
            (set (buffer (parameters s)) \<subseteq> {0} \<and> set in_data \<subseteq> {0})"
  shows "(\<forall>m<4. damper_state (parameters s') ! m = 0) \<and>
         0 \<le> index (parameters s) \<and> nat (index (parameters s)) < length (out_data s) \<and>
         nat (index (parameters s)) < length in_data \<and>
         out_data s' = (out_data s)[nat (index (parameters s)) := in_data ! nat (index (parameters s))] \<and>
         index (parameters s') = index (parameters s) + 1 \<and>
         gain (parameters s') = gain (parameters s) \<and>
         num_samples (parameters s') = num_samples (parameters s) \<and>
         (set (buffer (parameters s)) \<subseteq> {0} \<and> set in_data \<subseteq> {0} \<longrightarrow>
            set (buffer (parameters s')) \<subseteq> {0})"
proof -
  let ?p = "parameters s" and ?p' = "parameters s'"
  let ?i = "nat (index ?p)"
  from FilterSegment_sample_Some [OF s'] obtain sum1 dsdg where
    fr: "mac_loop (\<lambda>m. rd (buffer ?p) (pos_lag s + m))
        (interpol_coeff_at (interpol_coeff ?p)) [0..PITCH_FRACORDER - 1] 0.0 = Some sum1"
    and len: "5 \<le> length (damper_state ?p)"
    and i: "0 \<le> index ?p" "index ?p < int (length in_data)" "index ?p < int (length (out_data s))"
    and ds': "damper_state ?p' = (damper_state ?p)
         [4 := damper_state ?p ! 3, 3 := damper_state ?p ! 2,
          2 := damper_state ?p ! 1, 1 := damper_state ?p ! 0, 0 := gain ?p * sum1]"
    and out': "out_data s' = (out_data s)[?i :=
        in_data ! ?i - (\<Sum>m<5. damper_state ?p' ! m * kDampFilter ! m)]"
    and p': "?p' = ?p\<lparr>damper_state := damper_state ?p', damper_state_dg := dsdg,
        buffer := (buffer ?p)[nat (pos s) := in_data ! ?i + out_data s' ! ?i],
        index := index ?p + 1\<rparr>"
    by blast
  have g0: "gain ?p * sum1 = 0"
  proof (cases "gain ?p = 0")
    case True
    then show ?thesis by simp
  next
    case False
    with q have "set (buffer ?p) \<subseteq> {0}" by simp
    then have "\<forall>m \<in> set [0..PITCH_FRACORDER - 1]. \<forall>x. rd (buffer ?p) (pos_lag s + m) = Some x \<longrightarrow> x = 0"
      by (blast dest: rd_zero)
    from mac_loop_zero [OF fr this] show ?thesis by simp
  qed
  have lens: "0 < length (damper_state ?p)" "1 < length (damper_state ?p)"
    "2 < length (damper_state ?p)" "3 < length (damper_state ?p)" "4 < length (damper_state ?p)"
    using len by auto
  from ds have d03: "damper_state ?p ! 0 = 0" "damper_state ?p ! 1 = 0" "damper_state ?p ! 2 = 0"
    "damper_state ?p ! 3 = 0" by simp_all
  have z0: "damper_state ?p' ! 0 = 0" unfolding ds' using lens g0 by simp
  have z1: "damper_state ?p' ! 1 = 0" unfolding ds' using lens d03 by simp
  have z2: "damper_state ?p' ! 2 = 0" unfolding ds' using lens d03 by simp
  have z3: "damper_state ?p' ! 3 = 0" unfolding ds' using lens d03 by simp
  have z4: "damper_state ?p' ! 4 = 0" unfolding ds' using lens d03 by simp
  have s5: "{..<5::nat} = {0, 1, 2, 3, 4}" by auto
  have dmp: "(\<Sum>m<5. damper_state ?p' ! m * kDampFilter ! m) = 0"
    unfolding s5 using z0 z1 z2 z3 z4 by simp
  have z: "\<forall>m<4. damper_state ?p' ! m = 0"
  proof (intro allI impI)
    fix m :: nat assume "m < 4"
    then have "m = 0 \<or> m = 1 \<or> m = 2 \<or> m = 3" by auto
    then show "damper_state ?p' ! m = 0" using z0 z1 z2 z3 by blast
  qed
  have o: "out_data s' = (out_data s)[?i := in_data ! ?i]" using out' dmp by simp
  have b: "set (buffer ?p) \<subseteq> {0} \<and> set in_data \<subseteq> {0} \<longrightarrow>
            set (buffer ?p') \<subseteq> {0}"
  proof (intro impI)
    assume a: "set (buffer ?p) \<subseteq> {0} \<and> set in_data \<subseteq> {0}"
    have "in_data ! ?i \<in> set in_data" using i by simp
    with a have x0: "in_data ! ?i = 0" by blast
    have "out_data s' ! ?i = in_data ! ?i" using o i by simp
    with x0 have "in_data ! ?i + out_data s' ! ?i = 0" by simp
    moreover have "buffer ?p' = (buffer ?p)[nat (pos s) := in_data ! ?i + out_data s' ! ?i]"
      by (subst p') simp
    ultimately have "set (buffer ?p') \<subseteq> insert 0 (set (buffer ?p))"
      using set_update_subset_insert [of "buffer ?p" "nat (pos s)" 0] by simp
    with a show "set (buffer ?p') \<subseteq> {0}" by auto
  qed
  have f: "index ?p' = index ?p + 1" "gain ?p' = gain ?p" "num_samples ?p' = num_samples ?p"
    by (subst p', simp)+
  have i': "nat (index ?p) < length (out_data s)" "nat (index ?p) < length in_data"
    using i by auto
  from z i i' o b f show ?thesis by simp
qed



lemma FilterSegment_silent:
  assumes f: "FilterSegment c in_data p out dg = Some (p', out', dg')"
    and ds: "\<forall>m<4. damper_state p ! m = 0"
    and q: "gain p = 0 \<or> (set (buffer p) \<subseteq> {0} \<and> set in_data \<subseteq> {0})"
    and o: "\<forall>i < nat (index p). i < length in_data \<and> out ! i = in_data ! i"
  shows "(\<forall>m<4. damper_state p' ! m = 0) \<and>
         index p' = index p + int (nat (num_samples p)) \<and>
         (\<forall>i < nat (index p'). i < length in_data \<and> out' ! i = in_data ! i) \<and>
         gain p' = gain p \<and> num_samples p' = num_samples p \<and>
         (set (buffer p) \<subseteq> {0} \<and> set in_data \<subseteq> {0} \<longrightarrow>
            set (buffer p') \<subseteq> {0})"
proof -
  let ?s0 = "\<lparr>parameters = p, out_data = out, out_dg = dg, pos = index p + PITCH_BUFFSIZE c,
              pos_lag = index p + PITCH_BUFFSIZE c - lag_offset p\<rparr>"
  let ?Z = "set (buffer p) \<subseteq> {0} \<and> set in_data \<subseteq> {0}"
  let ?I = "\<lambda>k s. (\<forall>m<4. damper_state (parameters s) ! m = 0) \<and>
         index (parameters s) = index p + int k \<and>
         (\<forall>i < nat (index (parameters s)). i < length in_data \<and> out_data s ! i = in_data ! i) \<and>
         gain (parameters s) = gain p \<and> num_samples (parameters s) = num_samples p \<and>
         (?Z \<longrightarrow> set (buffer (parameters s)) \<subseteq> {0})"
  from f obtain t where
    l: "FilterSegment_loop in_data (nat (num_samples p)) ?s0 = Some t"
    and t: "p' = parameters t" "out' = out_data t" "dg' = out_dg t"
    unfolding FilterSegment_def Let_def by (auto split: Option.bind_splits)
  have "?I (nat (num_samples p)) t"
  proof (rule FilterSegment_loop_rule [OF l, where I = ?I])
    show "?I 0 ?s0" using ds o by simp
  next
    fix k u u'
    assume I: "?I k u" and u': "FilterSegment_sample in_data u = Some u'"
    from I have a: "\<forall>m<4. damper_state (parameters u) ! m = 0"
      and ix: "index (parameters u) = index p + int k"
      and pre: "\<forall>i < nat (index (parameters u)). i < length in_data \<and> out_data u ! i = in_data ! i"
      and g: "gain (parameters u) = gain p" and n: "num_samples (parameters u) = num_samples p"
      and zu: "?Z \<longrightarrow> set (buffer (parameters u)) \<subseteq> {0}"
      by simp_all
    have b: "gain (parameters u) = 0 \<or>
            (set (buffer (parameters u)) \<subseteq> {0} \<and> set in_data \<subseteq> {0})"
      using q g zu by auto
    note S = FilterSegment_sample_silent [OF u' a b]
    from S have a': "\<forall>m<4. damper_state (parameters u') ! m = 0" by simp
    from S have i: "0 \<le> index (parameters u)" "nat (index (parameters u)) < length (out_data u)"
      "nat (index (parameters u)) < length in_data"
      by simp_all
    from S have o': "out_data u' =
        (out_data u)[nat (index (parameters u)) := in_data ! nat (index (parameters u))]"
      by simp
    from S have ix': "index (parameters u') = index (parameters u) + 1"
      and g': "gain (parameters u') = gain (parameters u)"
      and n': "num_samples (parameters u') = num_samples (parameters u)"
      by simp_all
    from S have z': "set (buffer (parameters u)) \<subseteq> {0} \<and> set in_data \<subseteq> {0} \<longrightarrow>
            set (buffer (parameters u')) \<subseteq> {0}"
      by simp
    have zu': "?Z \<longrightarrow> set (buffer (parameters u')) \<subseteq> {0}"
      using zu z' by blast
    have pre': "\<forall>j < nat (index (parameters u')). j < length in_data \<and> out_data u' ! j = in_data ! j"
    proof (intro allI impI)
      fix j assume "j < nat (index (parameters u'))"
      then have "j < nat (index (parameters u)) \<or> j = nat (index (parameters u))"
        using ix' i by auto
      then show "j < length in_data \<and> out_data u' ! j = in_data ! j"
        using pre i unfolding o' by (auto simp: nth_list_update)
    qed
    have ix2: "index (parameters u') = index p + int (Suc k)" using ix ix' by simp
    have g2: "gain (parameters u') = gain p" using g g' by simp
    have n2: "num_samples (parameters u') = num_samples p" using n n' by simp
    show "?I (Suc k) u'"
      by (intro conjI a' ix2 pre' g2 n2 zu')
  qed
  then show ?thesis unfolding t by simp
qed


lemma FilterFrame_granules_silent:
  assumes run: "FilterFrame_granules lrint c in_data gd ld n (p, out, dg) = Some (p', out', dg')"
    and ds: "\<forall>m<4. damper_state p ! m = 0"
    and q: "(gain p = 0 \<and> gd = 0) \<or> (set (buffer p) \<subseteq> {0} \<and> set in_data \<subseteq> {0})"
    and o: "\<forall>i < nat (index p). i < length in_data \<and> out ! i = in_data ! i"
  shows "(\<forall>m<4. damper_state p' ! m = 0) \<and>
         index p' = index p + int (n * nat (num_samples p)) \<and>
         (\<forall>i < nat (index p'). i < length in_data \<and> out' ! i = in_data ! i) \<and>
         num_samples p' = num_samples p \<and>
         (set (buffer p) \<subseteq> {0} \<and> set in_data \<subseteq> {0} \<longrightarrow> set (buffer p') \<subseteq> {0})"
proof -
  let ?Z = "set (buffer p) \<subseteq> {0} \<and> set in_data \<subseteq> {0}"
  let ?N = "nat (num_samples p)"
  let ?I = "\<lambda>k (s :: PitchFilterParam \<times> real list \<times> real list list).
         (\<forall>m<4. damper_state (fst s) ! m = 0) \<and>
         index (fst s) = index p + int (k * ?N) \<and>
         (\<forall>i < nat (index (fst s)). i < length in_data \<and> fst (snd s) ! i = in_data ! i) \<and>
         num_samples (fst s) = num_samples p \<and>
         (gain p = 0 \<and> gd = 0 \<longrightarrow> gain (fst s) = 0) \<and>
         (?Z \<longrightarrow> set (buffer (fst s)) \<subseteq> {0})"
  have "?I n (p', out', dg')"
  proof (rule FilterFrame_granules_rule [OF run, where I = ?I])
    show "?I 0 (p, out, dg)" using ds o by simp
  next
    fix k p1 out1 dg1 p2 r
    assume I: "?I k (p1, out1, dg1)"
      and u: "Update lrint c (p1\<lparr>gain := gain p1 + gd, lag := lag p1 + ld\<rparr>) = Some p2"
      and f: "FilterSegment c in_data p2 out1 dg1 = Some r"
    obtain p3 out3 dg3 where r: "r = (p3, out3, dg3)" by (cases r) auto
    from I have a: "\<forall>m<4. damper_state p1 ! m = 0"
      and ix: "index p1 = index p + int (k * ?N)"
      and pre: "\<forall>i < nat (index p1). i < length in_data \<and> out1 ! i = in_data ! i"
      and n: "num_samples p1 = num_samples p"
      and g: "gain p = 0 \<and> gd = 0 \<longrightarrow> gain p1 = 0"
      and z: "?Z \<longrightarrow> set (buffer p1) \<subseteq> {0}"
      by simp_all
    note U = Update_preserves [OF u]
    from U have b2: "buffer p2 = buffer p1" and d2: "damper_state p2 = damper_state p1"
      and g2: "gain p2 = gain p1 + gd" and i2: "index p2 = index p1"
      and n2: "num_samples p2 = num_samples p1"
      by simp_all
    have a2: "\<forall>m<4. damper_state p2 ! m = 0" using a d2 by simp
    have q2: "gain p2 = 0 \<or> (set (buffer p2) \<subseteq> {0} \<and> set in_data \<subseteq> {0})"
      using q g z g2 b2 by auto
    have o2: "\<forall>i < nat (index p2). i < length in_data \<and> out1 ! i = in_data ! i" using pre i2 by simp
    note S = FilterSegment_silent [OF f [unfolded r] a2 q2 o2]
    from S have a3: "\<forall>m<4. damper_state p3 ! m = 0" by simp
    from S have i3: "index p3 = index p2 + int (nat (num_samples p2))" by simp
    from S have o3: "\<forall>i < nat (index p3). i < length in_data \<and> out3 ! i = in_data ! i" by simp
    from S have g3: "gain p3 = gain p2" and n3: "num_samples p3 = num_samples p2" by simp_all
    from S have z3: "set (buffer p2) \<subseteq> {0} \<and> set in_data \<subseteq> {0} \<longrightarrow> set (buffer p3) \<subseteq> {0}"
      by simp
    have ix3: "index p3 = index p + int (Suc k * ?N)"
      using i3 i2 ix n2 n by (simp add: algebra_simps)
    have nn: "num_samples p3 = num_samples p" using n3 n2 n by simp
    have gg: "gain p = 0 \<and> gd = 0 \<longrightarrow> gain p3 = 0" using g g2 g3 by simp
    have zz: "?Z \<longrightarrow> set (buffer p3) \<subseteq> {0}" using z z3 b2 by simp
    show "?I (Suc k) r"
      unfolding r fst_conv snd_conv by (intro conjI a3 ix3 o3 nn gg zz)
  qed
  then show ?thesis by simp
qed

lemma FilterFrame_subframes_silent:
  assumes run: "FilterFrame_subframes lrint c in_data lags gains ms (ol, og, p, out, dg) =
                  Some (ol', og', p', out', dg')"
    and ds: "\<forall>m<4. damper_state p ! m = 0"
    and q: "(og = 0 \<and> set gains \<subseteq> {0}) \<or> (set (buffer p) \<subseteq> {0} \<and> set in_data \<subseteq> {0})"
    and o: "\<forall>i < nat (index p). i < length in_data \<and> out ! i = in_data ! i"
  shows "(\<forall>m<4. damper_state p' ! m = 0) \<and>
         index p' = index p +
            int (length ms * (nat (PITCH_GRAN_PER_SUBFRAME c) * nat (num_samples p))) \<and>
         (\<forall>i < nat (index p'). i < length in_data \<and> out' ! i = in_data ! i) \<and>
         num_samples p' = num_samples p"
proof -
  let ?Z = "set (buffer p) \<subseteq> {0} \<and> set in_data \<subseteq> {0}"
  let ?G = "og = 0 \<and> set gains \<subseteq> {0}"
  let ?N = "nat (PITCH_GRAN_PER_SUBFRAME c) * nat (num_samples p)"
  let ?I = "\<lambda>k (s :: real \<times> real \<times> PitchFilterParam \<times> real list \<times> real list list).
         (\<forall>m<4. damper_state (fst (snd (snd s))) ! m = 0) \<and>
         index (fst (snd (snd s))) = index p + int (k * ?N) \<and>
         (\<forall>i < nat (index (fst (snd (snd s)))). i < length in_data \<and> fst (snd (snd (snd s))) ! i = in_data ! i) \<and>
         num_samples (fst (snd (snd s))) = num_samples p \<and>
         (?G \<longrightarrow> fst (snd s) = 0) \<and>
         (?Z \<longrightarrow> set (buffer (fst (snd (snd s)))) \<subseteq> {0})"
  have "?I (length ms) (ol', og', p', out', dg')"
  proof (rule FilterFrame_subframes_rule [OF run, where I = ?I])
    show "?I 0 (ol, og, p, out, dg)" using ds o by simp
  next
    fix k ol1 og1 p1 out1 dg1 lm gm r
    assume I: "?I k (ol1, og1, p1, out1, dg1)"
      and gm: "rd gains (ms ! k) = Some gm"
      and gr: "FilterFrame_granules lrint c in_data
             ((gm - og1) / of_int (PITCH_GRAN_PER_SUBFRAME c))
             ((lm - ol1) / of_int (PITCH_GRAN_PER_SUBFRAME c))
             (nat (PITCH_GRAN_PER_SUBFRAME c))
             (p1\<lparr>sub_frame := ms ! k, lag := ol1, gain := og1\<rparr>, out1, dg1) = Some r"
    obtain p3 out3 dg3 where r: "r = (p3, out3, dg3)" by (cases r) auto
    let ?p2 = "p1\<lparr>sub_frame := ms ! k, lag := ol1, gain := og1\<rparr>"
    from I have a: "\<forall>m<4. damper_state p1 ! m = 0"
      and ix: "index p1 = index p + int (k * ?N)"
      and pre: "\<forall>i < nat (index p1). i < length in_data \<and> out1 ! i = in_data ! i"
      and n: "num_samples p1 = num_samples p"
      and g: "?G \<longrightarrow> og1 = 0"
      and z: "?Z \<longrightarrow> set (buffer p1) \<subseteq> {0}"
      by simp_all
    have gm0: "?G \<longrightarrow> gm = 0" using gm by (blast dest: rd_zero)
    have a2: "\<forall>m<4. damper_state ?p2 ! m = 0" using a by simp
    have q2: "(gain ?p2 = 0 \<and> (gm - og1) / of_int (PITCH_GRAN_PER_SUBFRAME c) = 0) \<or>
              (set (buffer ?p2) \<subseteq> {0} \<and> set in_data \<subseteq> {0})"
      using q g gm0 z by auto
    have o2: "\<forall>i < nat (index ?p2). i < length in_data \<and> out1 ! i = in_data ! i" using pre by simp
    note S = FilterFrame_granules_silent [OF gr [unfolded r] a2 q2 o2]
    from S have a3: "\<forall>m<4. damper_state p3 ! m = 0" by simp
    from S have i3: "index p3 = index ?p2 +
        int (nat (PITCH_GRAN_PER_SUBFRAME c) * nat (num_samples ?p2))" by simp
    from S have o3: "\<forall>i < nat (index p3). i < length in_data \<and> out3 ! i = in_data ! i" by simp
    from S have n3: "num_samples p3 = num_samples ?p2" by simp
    from S have z3: "set (buffer ?p2) \<subseteq> {0} \<and> set in_data \<subseteq> {0} \<longrightarrow> set (buffer p3) \<subseteq> {0}"
      by simp
    have ix3: "index p3 = index p + int (Suc k * ?N)"
      using i3 ix n by (simp add: algebra_simps)
    have nn: "num_samples p3 = num_samples p" using n3 n by simp
    have zz: "?Z \<longrightarrow> set (buffer p3) \<subseteq> {0}" using z z3 by simp
    show "?I (Suc k) (lm, gm, r)"
      unfolding r fst_conv snd_conv by (intro conjI a3 ix3 o3 nn gm0 zz)
  qed
  then show ?thesis by simp
qed


lemma FilterFrame_Some:
  assumes "FilterFrame lrint c uninit in_data st lags gains mode1 out dg = Some (st', gains', out', dg')"
  shows "\<exists>p0 dg0 ol og p1 ol' og' p2 out2 dg2.
     FilterFrame_setup c uninit st gains mode1 dg = Some (p0, gains', dg0) \<and>
     FilterFrame_anchors c st lags gains' p0 = Some (ol, og, p1) \<and>
     FilterFrame_subframes lrint c in_data lags gains' [0..PITCH_SUBFRAMES - 1]
        (ol, og, p1\<lparr>num_samples := PITCH_UPDATE c\<rparr>, out, dg0) = Some (ol', og', p2, out2, dg2) \<and>
     (if mode1 \<noteq> kPitchFilterPreGain then FilterFrame_export c st p2 ol' og' = Some st'
      else st' = st) \<and>
     (if mode1 = kPitchFilterPreGain \<or> mode1 = kPitchFilterPreLa
      then \<exists>p3. FilterSegment c in_data
                  (p2\<lparr>sub_frame := PITCH_SUBFRAMES - 1, num_samples := QLOOKAHEAD c\<rparr>) out2 dg2 =
                Some (p3, out', dg')
      else out' = out2 \<and> dg' = dg2)"
  using assms unfolding FilterFrame_def Let_def
  by (auto split: Option.bind_splits prod.splits if_splits)

lemma FilterFrame_setup_Some:
  assumes "FilterFrame_setup c uninit st gains mode1 dg = Some (p0, gains', dg0)"
  shows "index p0 = 0 \<and> mode p0 = mode1 \<and>
     buffer p0 = ubuf st @ replicate (nat (PITCH_INTBUFFSIZE c + QLOOKAHEAD c) - length (ubuf st)) 0 \<and>
     damper_state p0 = ystate st @ drop (length (ystate st)) (damper_state uninit) \<and>
     (mode1 = kPitchFilterPreGain \<longrightarrow> gain_mult p0 = replicate 4 0) \<and>
     (mode1 \<noteq> kPitchFilterPost \<longrightarrow> gains' = gains) \<and>
     (mode1 \<noteq> kPitchFilterPreGain \<longrightarrow> dg0 = dg)"
  using assms unfolding FilterFrame_setup_def Let_def
  by (auto split: Option.bind_splits if_splits)

lemma FilterFrame_anchors_Some:
  assumes "FilterFrame_anchors c st lags gains p = Some (ol, og, p1)"
  shows "rd lags 0 = Some (lags ! 0) \<and>
     (if lags ! 0 > PITCH_UPSTEP c * oldlagp st \<or> lags ! 0 < PITCH_DOWNSTEP c * oldlagp st
      then ol = lags ! 0 \<and> rd gains 0 = Some og \<and> og = gains ! 0 \<and>
           (if mode p = kPitchFilterPreGain
            then 0 < length (gain_mult p) \<and> p1 = p\<lparr>gain_mult := (gain_mult p)[0 := 1]\<rparr>
            else p1 = p)
      else ol = oldlagp st \<and> og = oldgainp st \<and> p1 = p)"
  using assms unfolding FilterFrame_anchors_def Let_def
  by (auto simp: rd_Some wr_Some split: Option.bind_splits if_splits)

lemma PitchfilterPre_silent:
  assumes run: "WebRtcIsac_PitchfilterPre lrint c uninit in_data out st lags gains =
                  Some (st', gains', out', dg')"
    and len: "4 \<le> length (ystate st)"
    and ys: "\<forall>m<4. ystate st ! m = 0"
    and q: "(set gains \<subseteq> {0} \<and>
             (oldgainp st = 0 \<or> lags ! 0 > PITCH_UPSTEP c * oldlagp st \<or>
              lags ! 0 < PITCH_DOWNSTEP c * oldlagp st)) \<or>
            (set (ubuf st) \<subseteq> {0} \<and> set in_data \<subseteq> {0})"
  shows "\<forall>i < 4 * (nat (PITCH_GRAN_PER_SUBFRAME c) * nat (PITCH_UPDATE c)). i < length in_data \<and> out' ! i = in_data ! i"
proof -
  from FilterFrame_Some [OF run [unfolded WebRtcIsac_PitchfilterPre_def]]
  obtain p0 dg0 ol og p1 ol' og' p2 out2 dg2 where
    su: "FilterFrame_setup c uninit st gains kPitchFilterPre [] = Some (p0, gains', dg0)"
    and an: "FilterFrame_anchors c st lags gains' p0 = Some (ol, og, p1)"
    and sf: "FilterFrame_subframes lrint c in_data lags gains' [0..PITCH_SUBFRAMES - 1]
        (ol, og, p1\<lparr>num_samples := PITCH_UPDATE c\<rparr>, out, dg0) = Some (ol', og', p2, out2, dg2)"
    and o2: "out' = out2"
    by auto
  note P0 = FilterFrame_setup_Some [OF su]
  from P0 have ix0: "index p0 = 0" and m0: "mode p0 = kPitchFilterPre"
    and b0: "buffer p0 = ubuf st @
        replicate (nat (PITCH_INTBUFFSIZE c + QLOOKAHEAD c) - length (ubuf st)) 0"
    and d0: "damper_state p0 = ystate st @ drop (length (ystate st)) (damper_state uninit)"
    and g: "gains' = gains"
    by simp_all
  note A = FilterFrame_anchors_Some [OF an]
  from A m0 have p1: "p1 = p0" by (simp split: if_splits)
  have og0: "set gains \<subseteq> {0} \<and>
             (oldgainp st = 0 \<or> lags ! 0 > PITCH_UPSTEP c * oldlagp st \<or>
              lags ! 0 < PITCH_DOWNSTEP c * oldlagp st) \<longrightarrow> og = 0"
  proof (intro impI)
    assume h: "set gains \<subseteq> {0} \<and>
             (oldgainp st = 0 \<or> lags ! 0 > PITCH_UPSTEP c * oldlagp st \<or>
              lags ! 0 < PITCH_DOWNSTEP c * oldlagp st)"
    show "og = 0"
    proof (cases "lags ! 0 > PITCH_UPSTEP c * oldlagp st \<or> lags ! 0 < PITCH_DOWNSTEP c * oldlagp st")
      case True
      with A have "rd gains 0 = Some og" unfolding g by simp
      with h show ?thesis by (blast dest: rd_zero)
    next
      case False
      with A have "og = oldgainp st" by simp
      with h False show ?thesis by simp
    qed
  qed
  let ?p = "p1\<lparr>num_samples := PITCH_UPDATE c\<rparr>"
  have ds: "\<forall>m<4. damper_state ?p ! m = 0"
    using ys len unfolding p1 by (simp add: d0 nth_append)
  have bz: "set (ubuf st) \<subseteq> {0} \<longrightarrow> set (buffer ?p) \<subseteq> {0}"
    unfolding p1 by (auto simp: b0)
  have q': "(og = 0 \<and> set gains' \<subseteq> {0}) \<or> (set (buffer ?p) \<subseteq> {0} \<and> set in_data \<subseteq> {0})"
    using q og0 bz unfolding g by blast
  have o: "\<forall>i < nat (index ?p). i < length in_data \<and> out ! i = in_data ! i" unfolding p1 using ix0 by simp
  note S = FilterFrame_subframes_silent [OF sf ds q' o]
  have l4: "length [0..PITCH_SUBFRAMES - 1] = 4" by (simp add: PITCH_SUBFRAMES_def)
  from S have s1: "index p2 = index ?p +
      int (length [0..PITCH_SUBFRAMES - 1] * (nat (PITCH_GRAN_PER_SUBFRAME c) * nat (num_samples ?p)))"
    by simp
  have s2: "index ?p = 0" unfolding p1 using ix0 by simp
  have s3: "num_samples ?p = PITCH_UPDATE c" by simp
  have ix2: "nat (index p2) = 4 * (nat (PITCH_GRAN_PER_SUBFRAME c) * nat (PITCH_UPDATE c))"
    unfolding s1 s2 s3 l4 by (simp del: of_nat_mult of_nat_add of_nat_numeral)
  from S have "\<forall>i < nat (index p2). i < length in_data \<and> out2 ! i = in_data ! i" by simp
  then show ?thesis unfolding ix2 o2 .
qed

text \<open>
  C8: when the input is zero throughout and the persistent state holds a zero history
  and a zero damper memory, every output sample of a returning call of
  \<^verbatim>\<open>WebRtcIsac_PitchfilterPre\<close> is zero, whatever the lags and gains. The frame has
  \<open>4 * PITCH_GRAN_PER_SUBFRAME * PITCH_UPDATE\<close> samples.
\<close>

theorem PitchfilterPre_zero_input:
  assumes "WebRtcIsac_PitchfilterPre lrint c uninit in_data out st lags gains =
             Some (st', gains', out', dg')"
    and "set in_data \<subseteq> {0}" and "set (ubuf st) \<subseteq> {0}"
    and "set (ystate st) \<subseteq> {0}" and "4 \<le> length (ystate st)"
  shows "\<forall>i < 4 * (nat (PITCH_GRAN_PER_SUBFRAME c) * nat (PITCH_UPDATE c)). out' ! i = 0"
proof -
  have ys: "\<forall>m<4. ystate st ! m = 0"
  proof (intro allI impI)
    fix m :: nat assume "m < 4"
    then have "ystate st ! m \<in> set (ystate st)" using assms(5) by simp
    then show "ystate st ! m = 0" using assms(4) by auto
  qed
  have q: "(set gains \<subseteq> {0} \<and>
             (oldgainp st = 0 \<or> lags ! 0 > PITCH_UPSTEP c * oldlagp st \<or>
              lags ! 0 < PITCH_DOWNSTEP c * oldlagp st)) \<or>
            (set (ubuf st) \<subseteq> {0} \<and> set in_data \<subseteq> {0})"
    using assms(2,3) by simp
  note S = PitchfilterPre_silent [OF assms(1) assms(5) ys q]
  show ?thesis
  proof (intro allI impI)
    fix i assume "i < 4 * (nat (PITCH_GRAN_PER_SUBFRAME c) * nat (PITCH_UPDATE c))"
    with S have "i < length in_data" and e: "out' ! i = in_data ! i" by simp_all
    then have "in_data ! i \<in> set in_data" by simp
    with assms(2) e show "out' ! i = 0" by auto
  qed
qed

theorem PitchfilterPre_zero_input_witness:
  "\<exists>st' g' out' dg'.
     WebRtcIsac_PitchfilterPre lrint_half_even short_settings uninit0 (replicate 8 0)
       [9, 9, 9, 9, 9, 9, 9, 9] state0 [8, 10, 12, 10] [0.5, 0.4, 0.3, 0.2] =
         Some (st', g', out', dg') \<and>
     (\<forall>i < 8. out' ! i = 0)"
proof -
  have "\<not> Option.is_none (WebRtcIsac_PitchfilterPre lrint_half_even short_settings uninit0
       (replicate 8 0) [9, 9, 9, 9, 9, 9, 9, 9] state0 [8, 10, 12, 10] [0.5, 0.4, 0.3, 0.2])"
    by (simp add: run_simps cong: run_congs)
  then obtain st' g' out' dg' where
    r: "WebRtcIsac_PitchfilterPre lrint_half_even short_settings uninit0 (replicate 8 0)
       [9, 9, 9, 9, 9, 9, 9, 9] state0 [8, 10, 12, 10] [0.5, 0.4, 0.3, 0.2] =
         Some (st', g', out', dg')"
    by (auto simp: Option.is_none_def)
  have h: "set (replicate 8 (0::real)) \<subseteq> {0}" "set (ubuf state0) \<subseteq> {0}"
    "set (ystate state0) \<subseteq> {0}" "4 \<le> length (ystate state0)"
    by (simp_all add: state0_def)
  from PitchfilterPre_zero_input [OF r h] have "\<forall>i < 8. out' ! i = 0"
    by (simp add: short_settings_def)
  with r show ?thesis by blast
qed

text \<open>
  C7, as the code has it: when all gains are zero, the damper memory of the persistent
  state is zero, and the gain the interpolation starts from is zero (the last gain of
  the state is zero, or the lag-jump guard replaces it by the first gain), then every
  output sample of a returning call of \<^verbatim>\<open>WebRtcIsac_PitchfilterPre\<close> equals the input
  sample.
\<close>

theorem PitchfilterPre_zero_gains:
  assumes "WebRtcIsac_PitchfilterPre lrint c uninit in_data out st lags gains =
             Some (st', gains', out', dg')"
    and "set gains \<subseteq> {0}"
    and "4 \<le> length (ystate st)" and "\<forall>m<4. ystate st ! m = 0"
    and "oldgainp st = 0 \<or> lags ! 0 > PITCH_UPSTEP c * oldlagp st \<or>
         lags ! 0 < PITCH_DOWNSTEP c * oldlagp st"
  shows "\<forall>i < 4 * (nat (PITCH_GRAN_PER_SUBFRAME c) * nat (PITCH_UPDATE c)).
           out' ! i = in_data ! i"
proof -
  have q: "(set gains \<subseteq> {0} \<and>
             (oldgainp st = 0 \<or> lags ! 0 > PITCH_UPSTEP c * oldlagp st \<or>
              lags ! 0 < PITCH_DOWNSTEP c * oldlagp st)) \<or>
            (set (ubuf st) \<subseteq> {0} \<and> set in_data \<subseteq> {0})"
    using assms(2,5) by simp
  from PitchfilterPre_silent [OF assms(1) assms(3) assms(4) q] show ?thesis by simp
qed

theorem PitchfilterPre_zero_gains_witness:
  "\<exists>st' g' out' dg'.
     WebRtcIsac_PitchfilterPre lrint_half_even short_settings uninit0 [1, 2, 3, 4, 5, 6, 7, 8]
       (replicate 8 0) (state0\<lparr>ubuf := replicate 16 1\<rparr>) [13, 13, 13, 13] [0, 0, 0, 0] =
         Some (st', g', out', dg') \<and>
     (\<forall>i < 8. out' ! i = [1, 2, 3, 4, 5, 6, 7, 8] ! i)"
proof -
  have "\<not> Option.is_none (WebRtcIsac_PitchfilterPre lrint_half_even short_settings uninit0
       [1, 2, 3, 4, 5, 6, 7, 8] (replicate 8 0) (state0\<lparr>ubuf := replicate 16 1\<rparr>)
       [13, 13, 13, 13] [0, 0, 0, 0])"
    by (simp add: run_simps cong: run_congs)
  then obtain st' g' out' dg' where
    r: "WebRtcIsac_PitchfilterPre lrint_half_even short_settings uninit0 [1, 2, 3, 4, 5, 6, 7, 8]
       (replicate 8 0) (state0\<lparr>ubuf := replicate 16 1\<rparr>) [13, 13, 13, 13] [0, 0, 0, 0] =
         Some (st', g', out', dg')"
    by (auto simp: Option.is_none_def)
  have h: "set [0, 0, 0, 0 :: real] \<subseteq> {0}"
    "4 \<le> length (ystate (state0\<lparr>ubuf := replicate 16 1\<rparr>))"
    "\<forall>m<4. ystate (state0\<lparr>ubuf := replicate 16 1\<rparr>) ! m = 0"
    "oldgainp (state0\<lparr>ubuf := replicate 16 1\<rparr>) = 0 \<or>
     [13, 13, 13, 13] ! 0 > PITCH_UPSTEP short_settings * oldlagp (state0\<lparr>ubuf := replicate 16 1\<rparr>) \<or>
     [13, 13, 13, 13] ! 0 < PITCH_DOWNSTEP short_settings * oldlagp (state0\<lparr>ubuf := replicate 16 1\<rparr>)"
    by (simp_all add: state0_def short_settings_def less_Suc_eq eval_nat_numeral)
  from PitchfilterPre_zero_gains [OF r h] have "\<forall>i < 8. out' ! i = [1, 2, 3, 4, 5, 6, 7, 8] ! i"
    by (simp add: short_settings_def)
  with r show ?thesis by blast
qed

text \<open>
  C7 as it is stated fails. With all gains zero the output still differs from the
  input when the damper memory of the state is not zero (first run), and when the last
  gain of the state is not zero and the lag does not jump, so that the gain ramps down
  from it over the first sub-frame (second run).
\<close>

theorem PitchfilterPre_zero_gains_counterexample:
  "WebRtcIsac_PitchfilterPre lrint_half_even short_settings uninit0 [1, 1, 1, 1, 1, 1, 1, 1]
     (replicate 8 0) state1 [8, 8, 8, 8] [0, 0, 0, 0] =
   Some (\<lparr>ubuf = [0, 0, 0, 0, 0, 0, 0, 0, 7 / 4, 34 / 25, 7 / 4, 207 / 100, 2, 2, 2, 2],
           ystate = [0, 0, 0, 0, 0], oldlagp = 8, oldgainp = 0\<rparr>,
         [0, 0, 0, 0], [3 / 4, 9 / 25, 3 / 4, 107 / 100, 1, 1, 1, 1], [])"
  by (simp add: run_simps cong: run_congs)

lemma PitchfilterPre_gain_ramp_run:
  "WebRtcIsac_PitchfilterPre lrint_half_even short_settings uninit0 [1, 1, 1, 1, 1, 1, 1, 1]
     (replicate 8 0) (state0\<lparr>ubuf := replicate 16 1\<rparr>) [8, 8, 8, 8] [0, 0, 0, 0] =
   Some (\<lparr>ubuf = [1, 1, 1, 1, 1, 1, 1, 1, 80699999999999993 / 40000000000000000,
             3100000000000001 / 1600000000000000, 1150000000000001 / 625000000000000,
             3100000000000001 / 1600000000000000, 80699999999999993 / 40000000000000000,
             2, 2, 2],
           ystate = [0, 0, 0, 0, 0], oldlagp = 8, oldgainp = 0\<rparr>,
         [0, 0, 0, 0],
         [40699999999999993 / 40000000000000000, 1500000000000001 / 1600000000000000,
          525000000000001 / 625000000000000, 1500000000000001 / 1600000000000000,
          40699999999999993 / 40000000000000000, 1, 1, 1], [])"
  by (simp add: run_simps cong: run_congs)

subsection \<open>The samples of a segment\<close>

lemma FilterSegment_loop_frame:
  assumes "FilterSegment_loop in_data n s = Some t"
  shows "index (parameters t) = index (parameters s) + int n \<and> pos t = pos s + int n \<and>
         (0 \<le> index (parameters s) \<longrightarrow>
            (\<forall>i < nat (index (parameters s)). out_data t ! i = out_data s ! i)) \<and>
         (0 \<le> pos s \<longrightarrow>
            (\<forall>i < nat (pos s). buffer (parameters t) ! i = buffer (parameters s) ! i))"
proof -
  let ?I = "\<lambda>k u. index (parameters u) = index (parameters s) + int k \<and> pos u = pos s + int k \<and>
         (0 \<le> index (parameters s) \<longrightarrow>
            (\<forall>i < nat (index (parameters s)). out_data u ! i = out_data s ! i)) \<and>
         (0 \<le> pos s \<longrightarrow>
            (\<forall>i < nat (pos s). buffer (parameters u) ! i = buffer (parameters s) ! i))"
  show ?thesis
  proof (rule FilterSegment_loop_rule [OF assms, where I = ?I])
    show "?I 0 s" by simp
  next
    fix k u u'
    assume I: "?I k u" and u': "FilterSegment_sample in_data u = Some u'"
    from I have ix: "index (parameters u) = index (parameters s) + int k"
      and px: "pos u = pos s + int k"
      and o: "0 \<le> index (parameters s) \<longrightarrow>
            (\<forall>i < nat (index (parameters s)). out_data u ! i = out_data s ! i)"
      and b: "0 \<le> pos s \<longrightarrow>
            (\<forall>i < nat (pos s). buffer (parameters u) ! i = buffer (parameters s) ! i)"
      by simp_all
    from FilterSegment_sample_Some [OF u'] obtain sum1 dsdg where
      o': "out_data u' = (out_data u)[nat (index (parameters u)) :=
        in_data ! nat (index (parameters u)) -
          (\<Sum>m<5. damper_state (parameters u') ! m * kDampFilter ! m)]"
      and p': "parameters u' = (parameters u)
       \<lparr>damper_state := damper_state (parameters u'),
        damper_state_dg := dsdg,
        buffer := (buffer (parameters u))[nat (pos u) :=
           in_data ! nat (index (parameters u)) + out_data u' ! nat (index (parameters u))],
        index := index (parameters u) + 1\<rparr>"
      and ps: "pos u' = pos u + 1"
      by blast
    have ix': "index (parameters u') = index (parameters u) + 1" by (subst p') simp
    have b': "buffer (parameters u') = (buffer (parameters u))[nat (pos u) :=
           in_data ! nat (index (parameters u)) + out_data u' ! nat (index (parameters u))]"
      by (subst p') simp
    have o2: "0 \<le> index (parameters s) \<longrightarrow>
            (\<forall>i < nat (index (parameters s)). out_data u' ! i = out_data s ! i)"
    proof (intro impI allI)
      fix i assume a: "0 \<le> index (parameters s)" and i: "i < nat (index (parameters s))"
      then have "i \<noteq> nat (index (parameters u))" using ix by simp
      then have "out_data u' ! i = out_data u ! i" unfolding o' by simp
      with o a i show "out_data u' ! i = out_data s ! i" by simp
    qed
    have b2: "0 \<le> pos s \<longrightarrow>
            (\<forall>i < nat (pos s). buffer (parameters u') ! i = buffer (parameters s) ! i)"
    proof (intro impI allI)
      fix i assume a: "0 \<le> pos s" and i: "i < nat (pos s)"
      then have "i \<noteq> nat (pos u)" using px by simp
      then have "buffer (parameters u') ! i = buffer (parameters u) ! i" unfolding b' by simp
      with b a i show "buffer (parameters u') ! i = buffer (parameters s) ! i" by simp
    qed
    have ix2: "index (parameters u') = index (parameters s) + int (Suc k)" using ix ix' by simp
    have px2: "pos u' = pos s + int (Suc k)" using px ps by simp
    show "?I (Suc k) u'" by (intro conjI ix2 px2 o2 b2)
  qed
qed

text \<open>
  C1: for every sample that \<open>FilterSegment\<close> processes, in every mode: the damped value
  is the inner product of the 5 slots of the damper memory (after the shift and the
  new first slot) with \<open>kDampFilter\<close>; the output sample is the input sample minus the
  damped value; the history buffer at the current position becomes input sample plus
  output sample. \<open>s\<close> holds the variables before the sample with number \<open>k\<close> of the
  segment and \<open>s'\<close> those after it; the last two lines say that the rest of the segment
  leaves both values in place.
\<close>

theorem FilterSegment_every_sample:
  assumes "FilterSegment c in_data p out dg = Some (p', out', dg')"
    and "k < nat (num_samples p)"
  shows "\<exists>s s'.
     FilterSegment_loop in_data k
       \<lparr>parameters = p, out_data = out, out_dg = dg, pos = index p + PITCH_BUFFSIZE c,
        pos_lag = index p + PITCH_BUFFSIZE c - lag_offset p\<rparr> = Some s \<and>
     FilterSegment_sample in_data s = Some s' \<and>
     index (parameters s) = index p + int k \<and>
     pos s = index p + int k + PITCH_BUFFSIZE c \<and>
     out_data s' ! nat (index (parameters s)) =
       in_data ! nat (index (parameters s)) -
         (\<Sum>m<5. damper_state (parameters s') ! m * kDampFilter ! m) \<and>
     buffer (parameters s') ! nat (pos s) =
       in_data ! nat (index (parameters s)) + out_data s' ! nat (index (parameters s)) \<and>
     out' ! nat (index (parameters s)) = out_data s' ! nat (index (parameters s)) \<and>
     buffer p' ! nat (pos s) = buffer (parameters s') ! nat (pos s)"
proof -
  let ?s0 = "\<lparr>parameters = p, out_data = out, out_dg = dg, pos = index p + PITCH_BUFFSIZE c,
              pos_lag = index p + PITCH_BUFFSIZE c - lag_offset p\<rparr>"
  from assms(1) obtain t where
    l: "FilterSegment_loop in_data (nat (num_samples p)) ?s0 = Some t"
    and t: "p' = parameters t" "out' = out_data t" "dg' = out_dg t"
    unfolding FilterSegment_def Let_def by (auto split: Option.bind_splits)
  from assms(2) have "nat (num_samples p) = k + Suc (nat (num_samples p) - Suc k)" by simp
  then obtain r where n: "nat (num_samples p) = k + Suc r" ..
  from l [unfolded n FilterSegment_loop_add] obtain s where
    s: "FilterSegment_loop in_data k ?s0 = Some s"
    and rest: "FilterSegment_loop in_data (Suc r) s = Some t"
    by (auto split: Option.bind_splits)
  from rest obtain s' where s': "FilterSegment_sample in_data s = Some s'"
    and rest': "FilterSegment_loop in_data r s' = Some t"
    by (auto split: Option.bind_splits)
  note F0 = FilterSegment_loop_frame [OF s]
  from F0 have ix: "index (parameters s) = index p + int k"
    and px: "pos s = index p + int k + PITCH_BUFFSIZE c"
    by simp_all
  from FilterSegment_sample_Some [OF s'] obtain sum1 dsdg where
    i: "0 \<le> index (parameters s)" "index (parameters s) < int (length (out_data s))"
    and ps: "0 \<le> pos s" "pos s < int (length (buffer (parameters s)))"
    and o': "out_data s' = (out_data s)[nat (index (parameters s)) :=
        in_data ! nat (index (parameters s)) -
          (\<Sum>m<5. damper_state (parameters s') ! m * kDampFilter ! m)]"
    and p': "parameters s' = (parameters s)
       \<lparr>damper_state := damper_state (parameters s'),
        damper_state_dg := dsdg,
        buffer := (buffer (parameters s))[nat (pos s) :=
           in_data ! nat (index (parameters s)) + out_data s' ! nat (index (parameters s))],
        index := index (parameters s) + 1\<rparr>"
    and ps': "pos s' = pos s + 1"
    by blast
  have ix': "index (parameters s') = index (parameters s) + 1" by (subst p') simp
  have b': "buffer (parameters s') = (buffer (parameters s))[nat (pos s) :=
         in_data ! nat (index (parameters s)) + out_data s' ! nat (index (parameters s))]"
    by (subst p') simp
  have c1: "out_data s' ! nat (index (parameters s)) =
       in_data ! nat (index (parameters s)) -
         (\<Sum>m<5. damper_state (parameters s') ! m * kDampFilter ! m)"
    unfolding o' using i by simp
  have c2: "buffer (parameters s') ! nat (pos s) =
       in_data ! nat (index (parameters s)) + out_data s' ! nat (index (parameters s))"
    using ps by (subst b') simp
  note F1 = FilterSegment_loop_frame [OF rest']
  from F1 have f1: "0 \<le> index (parameters s') \<longrightarrow>
        (\<forall>i < nat (index (parameters s')). out_data t ! i = out_data s' ! i)"
    and f2: "0 \<le> pos s' \<longrightarrow>
        (\<forall>i < nat (pos s'). buffer (parameters t) ! i = buffer (parameters s') ! i)"
    by simp_all
  have "nat (index (parameters s)) < nat (index (parameters s'))" using i ix' by simp
  with f1 i ix' have c3: "out' ! nat (index (parameters s)) = out_data s' ! nat (index (parameters s))"
    unfolding t by simp
  have "nat (pos s) < nat (pos s')" using ps ps' by simp
  with f2 ps ps' have c4: "buffer p' ! nat (pos s) = buffer (parameters s') ! nat (pos s)"
    unfolding t by simp
  show ?thesis
    by (intro exI [of _ s] exI [of _ s'] conjI s s' ix px c1 c2 c3 c4)
qed

theorem FilterSegment_every_sample_witness:
  "FilterSegment short_settings [1, 2]
     (uninit0\<lparr>buffer := replicate 26 0, damper_state := [1, 0, 0, 0, 0], interpol_coeff := 4,
        gain := 0.5, lag_offset := 10, mode := kPitchFilterPre, num_samples := 2, index := 0\<rparr>)
     [0, 0] [] =
   Some (uninit0\<lparr>buffer := (replicate 26 0)[16 := 7 / 4, 17 := 84 / 25],
           damper_state := [0, 0, 1, 0, 0], interpol_coeff := 4,
           gain := 0.5, lag_offset := 10, mode := kPitchFilterPre, num_samples := 2, index := 2\<rparr>,
         [3 / 4, 34 / 25], []) \<and>
   (\<exists>s s'. FilterSegment_loop [1, 2] 1
       \<lparr>parameters = uninit0\<lparr>buffer := replicate 26 0, damper_state := [1, 0, 0, 0, 0],
           interpol_coeff := 4, gain := 0.5, lag_offset := 10, mode := kPitchFilterPre,
           num_samples := 2, index := 0\<rparr>,
        out_data = [0, 0], out_dg = [], pos = 16, pos_lag = 6\<rparr> = Some s \<and>
      FilterSegment_sample [1, 2] s = Some s' \<and> index (parameters s) = 1 \<and> pos s = 17 \<and>
      out_data s' ! 1 = 2 - (\<Sum>m<5. damper_state (parameters s') ! m * kDampFilter ! m) \<and>
      buffer (parameters s') ! 17 = 2 + out_data s' ! 1)"
proof -
  let ?p = "uninit0\<lparr>buffer := replicate 26 0, damper_state := [1, 0, 0, 0, 0], interpol_coeff := 4,
        gain := 0.5, lag_offset := 10, mode := kPitchFilterPre, num_samples := 2, index := 0\<rparr>"
  have r: "FilterSegment short_settings [1, 2] ?p [0, 0] [] =
     Some (uninit0\<lparr>buffer := (replicate 26 0)[16 := 7 / 4, 17 := 84 / 25],
           damper_state := [0, 0, 1, 0, 0], interpol_coeff := 4,
           gain := 0.5, lag_offset := 10, mode := kPitchFilterPre, num_samples := 2, index := 2\<rparr>,
         [3 / 4, 34 / 25], [])"
    by (simp add: run_simps cong: run_congs)
  have k: "1 < nat (num_samples ?p)" by simp
  from FilterSegment_every_sample [OF r k] obtain s s' where
    a: "FilterSegment_loop [1, 2] 1
       \<lparr>parameters = ?p, out_data = [0, 0], out_dg = [],
        pos = index ?p + PITCH_BUFFSIZE short_settings,
        pos_lag = index ?p + PITCH_BUFFSIZE short_settings - lag_offset ?p\<rparr> = Some s"
    and b: "FilterSegment_sample [1, 2] s = Some s'"
    and ix: "index (parameters s) = index ?p + int 1"
    and px: "pos s = index ?p + int 1 + PITCH_BUFFSIZE short_settings"
    and c1: "out_data s' ! nat (index (parameters s)) =
       [1, 2] ! nat (index (parameters s)) -
         (\<Sum>m<5. damper_state (parameters s') ! m * kDampFilter ! m)"
    and c2: "buffer (parameters s') ! nat (pos s) =
       [1, 2] ! nat (index (parameters s)) + out_data s' ! nat (index (parameters s))"
    by blast
  have a': "FilterSegment_loop [1, 2] 1
       \<lparr>parameters = ?p, out_data = [0, 0], out_dg = [], pos = 16, pos_lag = 6\<rparr> = Some s"
    using a by (simp add: short_settings_def del: FilterSegment_loop.simps One_nat_def)
  have ix': "index (parameters s) = 1" using ix by simp
  have px': "pos s = 17" using px by (simp add: short_settings_def)
  have c1': "out_data s' ! 1 = 2 - (\<Sum>m<5. damper_state (parameters s') ! m * kDampFilter ! m)"
    using c1 unfolding ix' by simp
  have c2': "buffer (parameters s') ! 17 = 2 + out_data s' ! 1"
    using c2 unfolding ix' px' by simp
  show ?thesis
    by (intro conjI exI [of _ s] exI [of _ s'] r a' b ix' px' c1' c2')
qed

subsection \<open>The lag-jump guard\<close>

text \<open>
  C3: in every call of \<open>FilterFrame\<close> that returns, the loop over the sub-frames starts
  from anchors \<open>old_lag\<close>, \<open>old_gain\<close> as follows. If the first lag is above
  \<open>PITCH_UPSTEP * oldlag\<close> or below \<open>PITCH_DOWNSTEP * oldlag\<close>, they are the first lag and
  the first gain (the gain as the filter uses it: in post mode after the scaling), and
  in mode \<^verbatim>\<open>kPitchFilterPreGain\<close> the gain multiplier of the first sub-frame is set to
  1.0, the others being 0; otherwise they are the lag and the gain of the persistent state, and
  the parameters are not touched.
\<close>

theorem FilterFrame_lag_jump_guard:
  assumes "FilterFrame lrint c uninit in_data st lags gains mode1 out dg = Some (st', gains', out', dg')"
  shows "\<exists>p0 dg0 old_lag old_gain p1 r.
     FilterFrame_setup c uninit st gains mode1 dg = Some (p0, gains', dg0) \<and>
     FilterFrame_anchors c st lags gains' p0 = Some (old_lag, old_gain, p1) \<and>
     FilterFrame_subframes lrint c in_data lags gains' [0..PITCH_SUBFRAMES - 1]
        (old_lag, old_gain, p1\<lparr>num_samples := PITCH_UPDATE c\<rparr>, out, dg0) = Some r \<and>
     (if lags ! 0 > PITCH_UPSTEP c * oldlagp st \<or> lags ! 0 < PITCH_DOWNSTEP c * oldlagp st
      then old_lag = lags ! 0 \<and> old_gain = gains' ! 0 \<and>
           (if mode1 = kPitchFilterPreGain then p1 = p0\<lparr>gain_mult := [1, 0, 0, 0]\<rparr> else p1 = p0)
      else old_lag = oldlagp st \<and> old_gain = oldgainp st \<and> p1 = p0)"
proof -
  from FilterFrame_Some [OF assms]
  obtain p0 dg0 ol og p1 ol' og' p2 out2 dg2 where
    su: "FilterFrame_setup c uninit st gains mode1 dg = Some (p0, gains', dg0)"
    and an: "FilterFrame_anchors c st lags gains' p0 = Some (ol, og, p1)"
    and sf: "FilterFrame_subframes lrint c in_data lags gains' [0..PITCH_SUBFRAMES - 1]
        (ol, og, p1\<lparr>num_samples := PITCH_UPDATE c\<rparr>, out, dg0) = Some (ol', og', p2, out2, dg2)"
    by blast
  note P0 = FilterFrame_setup_Some [OF su]
  from P0 have m0: "mode p0 = mode1"
    and gm: "mode1 = kPitchFilterPreGain \<longrightarrow> gain_mult p0 = replicate 4 0"
    by simp_all
  note A = FilterFrame_anchors_Some [OF an]
  have g: "mode1 = kPitchFilterPreGain \<longrightarrow> (gain_mult p0)[0 := 1] = [1, 0, 0, 0]"
    using gm by (simp add: eval_nat_numeral)
  have "if lags ! 0 > PITCH_UPSTEP c * oldlagp st \<or> lags ! 0 < PITCH_DOWNSTEP c * oldlagp st
      then ol = lags ! 0 \<and> og = gains' ! 0 \<and>
           (if mode1 = kPitchFilterPreGain then p1 = p0\<lparr>gain_mult := [1, 0, 0, 0]\<rparr> else p1 = p0)
      else ol = oldlagp st \<and> og = oldgainp st \<and> p1 = p0"
    using A m0 g by (auto split: if_splits)
  with su an sf show ?thesis by blast
qed

theorem FilterFrame_lag_jump_guard_witness:
  "\<exists>st' g' out' dg' p0 dg0 p1 r.
     FilterFrame lrint_half_even short_settings uninit0 (replicate 10 0) state0
       [13, 13, 13, 13] [0.5, 0.4, 0.3, 0.2] kPitchFilterPreGain (replicate 10 0)
       (replicate 4 (replicate 10 9)) = Some (st', g', out', dg') \<and>
     FilterFrame_setup short_settings uninit0 state0 [0.5, 0.4, 0.3, 0.2] kPitchFilterPreGain
       (replicate 4 (replicate 10 9)) = Some (p0, g', dg0) \<and>
     FilterFrame_anchors short_settings state0 [13, 13, 13, 13] g' p0 = Some (13, g' ! 0, p1) \<and>
     p1 = p0\<lparr>gain_mult := [1, 0, 0, 0]\<rparr> \<and>
     FilterFrame_subframes lrint_half_even short_settings (replicate 10 0) [13, 13, 13, 13] g'
       [0..PITCH_SUBFRAMES - 1]
       (13, g' ! 0, p1\<lparr>num_samples := PITCH_UPDATE short_settings\<rparr>, replicate 10 0, dg0) = Some r"
proof -
  have "\<not> Option.is_none (FilterFrame lrint_half_even short_settings uninit0 (replicate 10 0)
       state0 [13, 13, 13, 13] [0.5, 0.4, 0.3, 0.2] kPitchFilterPreGain (replicate 10 0)
       (replicate 4 (replicate 10 9)))"
    by (simp add: run_simps cong: run_congs)
  then obtain st' g' out' dg' where
    r: "FilterFrame lrint_half_even short_settings uninit0 (replicate 10 0) state0
       [13, 13, 13, 13] [0.5, 0.4, 0.3, 0.2] kPitchFilterPreGain (replicate 10 0)
       (replicate 4 (replicate 10 9)) = Some (st', g', out', dg')"
    by (auto simp: Option.is_none_def)
  have j: "[13, 13, 13, 13] ! 0 > PITCH_UPSTEP short_settings * oldlagp state0 \<or>
           [13, 13, 13, 13] ! 0 < PITCH_DOWNSTEP short_settings * oldlagp state0"
    by (simp add: short_settings_def state0_def)
  from FilterFrame_lag_jump_guard [OF r] obtain p0 dg0 old_lag old_gain p1 r' where
    su: "FilterFrame_setup short_settings uninit0 state0 [0.5, 0.4, 0.3, 0.2] kPitchFilterPreGain
       (replicate 4 (replicate 10 9)) = Some (p0, g', dg0)"
    and an: "FilterFrame_anchors short_settings state0 [13, 13, 13, 13] g' p0 =
       Some (old_lag, old_gain, p1)"
    and sf: "FilterFrame_subframes lrint_half_even short_settings (replicate 10 0)
       [13, 13, 13, 13] g' [0..PITCH_SUBFRAMES - 1]
       (old_lag, old_gain, p1\<lparr>num_samples := PITCH_UPDATE short_settings\<rparr>, replicate 10 0, dg0) =
         Some r'"
    and c: "if [13, 13, 13, 13] ! 0 > PITCH_UPSTEP short_settings * oldlagp state0 \<or>
               [13, 13, 13, 13] ! 0 < PITCH_DOWNSTEP short_settings * oldlagp state0
            then old_lag = [13, 13, 13, 13] ! 0 \<and> old_gain = g' ! 0 \<and>
                 (if kPitchFilterPreGain = kPitchFilterPreGain
                  then p1 = p0\<lparr>gain_mult := [1, 0, 0, 0]\<rparr> else p1 = p0)
            else old_lag = oldlagp state0 \<and> old_gain = oldgainp state0 \<and> p1 = p0"
    by blast
  from c j have ol: "old_lag = 13" and og: "old_gain = g' ! 0"
    and p1: "p1 = p0\<lparr>gain_mult := [1, 0, 0, 0]\<rparr>"
    by simp_all
  show ?thesis
    using r su an [unfolded ol og] p1 sf [unfolded ol og] by blast
qed

subsection \<open>The mode and the persistent state\<close>

lemma FilterSegment_sample_mode:
  assumes "FilterSegment_sample in_data s = Some t"
    and "mode (parameters s) \<noteq> kPitchFilterPreGain" and "m' \<noteq> kPitchFilterPreGain"
  shows "FilterSegment_sample in_data (s\<lparr>parameters := (parameters s)\<lparr>mode := m'\<rparr>\<rparr>) =
           Some (t\<lparr>parameters := (parameters t)\<lparr>mode := m'\<rparr>\<rparr>) \<and>
         mode (parameters t) = mode (parameters s)"
  using assms unfolding FilterSegment_sample_def Let_def
  by (auto split: Option.bind_splits)

lemma FilterSegment_loop_mode:
  assumes "FilterSegment_loop in_data n s = Some t"
    and "mode (parameters s) \<noteq> kPitchFilterPreGain" and "m' \<noteq> kPitchFilterPreGain"
  shows "FilterSegment_loop in_data n (s\<lparr>parameters := (parameters s)\<lparr>mode := m'\<rparr>\<rparr>) =
           Some (t\<lparr>parameters := (parameters t)\<lparr>mode := m'\<rparr>\<rparr>) \<and>
         mode (parameters t) = mode (parameters s)"
  using assms
proof (induction n arbitrary: s)
  case 0
  then show ?case by simp
next
  case (Suc n)
  from Suc.prems(1) obtain s1 where s1: "FilterSegment_sample in_data s = Some s1"
    and rest: "FilterSegment_loop in_data n s1 = Some t"
    by (auto split: Option.bind_splits)
  note A = FilterSegment_sample_mode [OF s1 Suc.prems(2) Suc.prems(3)]
  from A have m1: "mode (parameters s1) \<noteq> kPitchFilterPreGain" using Suc.prems(2) by simp
  note B = Suc.IH [OF rest m1 Suc.prems(3)]
  from A B show ?case by simp
qed

lemma FilterSegment_mode:
  assumes "FilterSegment c in_data p out dg = Some (p', out', dg')"
    and "mode p \<noteq> kPitchFilterPreGain" and "m' \<noteq> kPitchFilterPreGain"
  shows "FilterSegment c in_data (p\<lparr>mode := m'\<rparr>) out dg = Some (p'\<lparr>mode := m'\<rparr>, out', dg') \<and>
         mode p' = mode p"
proof -
  let ?s0 = "\<lparr>parameters = p, out_data = out, out_dg = dg, pos = index p + PITCH_BUFFSIZE c,
              pos_lag = index p + PITCH_BUFFSIZE c - lag_offset p\<rparr>"
  from assms(1) obtain t where
    l: "FilterSegment_loop in_data (nat (num_samples p)) ?s0 = Some t"
    and t: "p' = parameters t" "out' = out_data t" "dg' = out_dg t"
    unfolding FilterSegment_def Let_def by (auto split: Option.bind_splits)
  have m: "mode (parameters ?s0) \<noteq> kPitchFilterPreGain" using assms(2) by simp
  note L = FilterSegment_loop_mode [OF l m assms(3)]
  from L have "FilterSegment_loop in_data (nat (num_samples p))
      \<lparr>parameters = p\<lparr>mode := m'\<rparr>, out_data = out, out_dg = dg, pos = index p + PITCH_BUFFSIZE c,
       pos_lag = index p + PITCH_BUFFSIZE c - lag_offset p\<rparr> =
      Some (t\<lparr>parameters := (parameters t)\<lparr>mode := m'\<rparr>\<rparr>)"
    by simp
  moreover from L have "mode (parameters t) = mode p" by simp
  ultimately show ?thesis unfolding FilterSegment_def Let_def t by simp
qed

lemma Update_mode:
  assumes "Update lrint c p = Some p'"
    and "mode p \<noteq> kPitchFilterPreGain" and "m' \<noteq> kPitchFilterPreGain"
  shows "Update lrint c (p\<lparr>mode := m'\<rparr>) = Some (p'\<lparr>mode := m'\<rparr>) \<and> mode p' = mode p"
  using assms by (auto simp: Update_def Let_def)

lemma FilterFrame_granules_mode:
  assumes "FilterFrame_granules lrint c in_data gd ld n (p, out, dg) = Some (p', out', dg')"
    and "mode p \<noteq> kPitchFilterPreGain" and "m' \<noteq> kPitchFilterPreGain"
  shows "FilterFrame_granules lrint c in_data gd ld n (p\<lparr>mode := m'\<rparr>, out, dg) =
           Some (p'\<lparr>mode := m'\<rparr>, out', dg') \<and> mode p' = mode p"
  using assms
proof (induction n arbitrary: p out dg)
  case 0
  then show ?case by simp
next
  case (Suc n)
  from Suc.prems(1) obtain p1 p2 out2 dg2 where
    u: "Update lrint c (p\<lparr>gain := gain p + gd, lag := lag p + ld\<rparr>) = Some p1"
    and f: "FilterSegment c in_data p1 out dg = Some (p2, out2, dg2)"
    and rest: "FilterFrame_granules lrint c in_data gd ld n (p2, out2, dg2) = Some (p', out', dg')"
    by (auto simp: Let_def split: Option.bind_splits)
  have m0: "mode (p\<lparr>gain := gain p + gd, lag := lag p + ld\<rparr>) \<noteq> kPitchFilterPreGain"
    using Suc.prems(2) by simp
  note U = Update_mode [OF u m0 Suc.prems(3)]
  from U have m1: "mode p1 \<noteq> kPitchFilterPreGain" using Suc.prems(2) by simp
  note F = FilterSegment_mode [OF f m1 Suc.prems(3)]
  from F m1 have m2: "mode p2 \<noteq> kPitchFilterPreGain" by simp
  note R = Suc.IH [OF rest m2 Suc.prems(3)]
  have e: "p\<lparr>mode := m', gain := gain p + gd, lag := lag p + ld\<rparr> =
      p\<lparr>gain := gain p + gd, lag := lag p + ld, mode := m'\<rparr>"
    by (cases p) simp
  have u': "Update lrint c (p\<lparr>mode := m', gain := gain p + gd, lag := lag p + ld\<rparr>) =
      Some (p1\<lparr>mode := m'\<rparr>)"
    unfolding e using U by simp
  from U F R have "mode p' = mode p" by simp
  moreover have "FilterFrame_granules lrint c in_data gd ld (Suc n) (p\<lparr>mode := m'\<rparr>, out, dg) =
           Some (p'\<lparr>mode := m'\<rparr>, out', dg')"
    using u' F R by (simp add: Let_def)
  ultimately show ?case by simp
qed

lemma FilterFrame_subframes_mode:
  assumes "FilterFrame_subframes lrint c in_data lags gains ms (ol, og, p, out, dg) =
             Some (ol', og', p', out', dg')"
    and "mode p \<noteq> kPitchFilterPreGain" and "m' \<noteq> kPitchFilterPreGain"
  shows "FilterFrame_subframes lrint c in_data lags gains ms (ol, og, p\<lparr>mode := m'\<rparr>, out, dg) =
           Some (ol', og', p'\<lparr>mode := m'\<rparr>, out', dg') \<and> mode p' = mode p"
  using assms
proof (induction ms arbitrary: ol og p out dg)
  case Nil
  then show ?case by simp
next
  case (Cons m ms)
  let ?gd = "\<lambda>gm. (gm - og) / of_int (PITCH_GRAN_PER_SUBFRAME c)"
  let ?ld = "\<lambda>lm. (lm - ol) / of_int (PITCH_GRAN_PER_SUBFRAME c)"
  from Cons.prems(1) obtain lm gm p2 out2 dg2 where
    lm: "rd lags m = Some lm" and gm: "rd gains m = Some gm"
    and g: "FilterFrame_granules lrint c in_data (?gd gm) (?ld lm)
             (nat (PITCH_GRAN_PER_SUBFRAME c))
             (p\<lparr>sub_frame := m, lag := ol, gain := og\<rparr>, out, dg) = Some (p2, out2, dg2)"
    and rest: "FilterFrame_subframes lrint c in_data lags gains ms (lm, gm, p2, out2, dg2) =
                 Some (ol', og', p', out', dg')"
    by (auto simp: Let_def split: Option.bind_splits prod.splits)
  have m0: "mode (p\<lparr>sub_frame := m, lag := ol, gain := og\<rparr>) \<noteq> kPitchFilterPreGain"
    using Cons.prems(2) by simp
  note G = FilterFrame_granules_mode [OF g m0 Cons.prems(3)]
  from G m0 have m2: "mode p2 \<noteq> kPitchFilterPreGain" by simp
  note R = Cons.IH [OF rest m2 Cons.prems(3)]
  have e: "p\<lparr>mode := m', sub_frame := m, lag := ol, gain := og\<rparr> =
      p\<lparr>sub_frame := m, lag := ol, gain := og, mode := m'\<rparr>"
    by (cases p) simp
  have g': "FilterFrame_granules lrint c in_data (?gd gm) (?ld lm)
             (nat (PITCH_GRAN_PER_SUBFRAME c))
             (p\<lparr>mode := m', sub_frame := m, lag := ol, gain := og\<rparr>, out, dg) =
            Some (p2\<lparr>mode := m'\<rparr>, out2, dg2)"
    unfolding e using G by simp
  from G R have "mode p' = mode p" by simp
  moreover have "FilterFrame_subframes lrint c in_data lags gains (m # ms)
      (ol, og, p\<lparr>mode := m'\<rparr>, out, dg) = Some (ol', og', p'\<lparr>mode := m'\<rparr>, out', dg')"
    using lm gm g' R by (simp add: Let_def)
  ultimately show ?case by simp
qed

lemma FilterFrame_setup_mode:
  assumes "FilterFrame_setup c uninit st gains kPitchFilterPreLa dg = Some (p0, gains', dg0)"
  shows "FilterFrame_setup c uninit st gains kPitchFilterPre dg =
           Some (p0\<lparr>mode := kPitchFilterPre\<rparr>, gains', dg0) \<and> mode p0 = kPitchFilterPreLa"
  using assms unfolding FilterFrame_setup_def Let_def
  by (auto split: if_splits)

lemma FilterFrame_anchors_mode:
  assumes "FilterFrame_anchors c st lags gains p = Some (ol, og, p1)"
    and "mode p \<noteq> kPitchFilterPreGain" and "m' \<noteq> kPitchFilterPreGain"
  shows "FilterFrame_anchors c st lags gains (p\<lparr>mode := m'\<rparr>) = Some (ol, og, p1\<lparr>mode := m'\<rparr>) \<and>
         mode p1 = mode p"
  using assms unfolding FilterFrame_anchors_def Let_def
  by (auto split: Option.bind_splits if_splits)

lemma FilterFrame_export_mode:
  "FilterFrame_export c st (p\<lparr>mode := m'\<rparr>) ol og = FilterFrame_export c st p ol og"
  by (simp add: FilterFrame_export_def)

text \<open>
  C5, as the code has it: in mode \<^verbatim>\<open>kPitchFilterPreLa\<close> the persistent state is written
  back before the lookahead segment is filtered. The state that a returning call of
  \<^verbatim>\<open>WebRtcIsac_PitchfilterPre_la\<close> leaves is the state that
  \<^verbatim>\<open>WebRtcIsac_PitchfilterPre\<close>, which filters no lookahead, leaves on the same
  arguments.
\<close>

theorem PitchfilterPre_la_state:
  assumes "WebRtcIsac_PitchfilterPre_la lrint c uninit in_data out pf_state lags gains =
             Some (pf_state', gains', out', dg')"
  shows "\<exists>out2 dg2. WebRtcIsac_PitchfilterPre lrint c uninit in_data out pf_state lags gains =
             Some (pf_state', gains', out2, dg2)"
proof -
  from FilterFrame_Some [OF assms [unfolded WebRtcIsac_PitchfilterPre_la_def]]
  obtain p0 dg0 ol og p1 ol' og' p2 out2 dg2 where
    su: "FilterFrame_setup c uninit pf_state gains kPitchFilterPreLa [] = Some (p0, gains', dg0)"
    and an: "FilterFrame_anchors c pf_state lags gains' p0 = Some (ol, og, p1)"
    and sf: "FilterFrame_subframes lrint c in_data lags gains' [0..PITCH_SUBFRAMES - 1]
        (ol, og, p1\<lparr>num_samples := PITCH_UPDATE c\<rparr>, out, dg0) = Some (ol', og', p2, out2, dg2)"
    and ex: "FilterFrame_export c pf_state p2 ol' og' = Some pf_state'"
    by auto
  note S = FilterFrame_setup_mode [OF su]
  from S have m0: "mode p0 \<noteq> kPitchFilterPreGain" by simp
  have pre: "kPitchFilterPre \<noteq> kPitchFilterPreGain" by simp
  note A = FilterFrame_anchors_mode [OF an m0 pre]
  from A m0 have m1: "mode (p1\<lparr>num_samples := PITCH_UPDATE c\<rparr>) \<noteq> kPitchFilterPreGain" by simp
  note F = FilterFrame_subframes_mode [OF sf m1 pre]
  have e: "p1\<lparr>mode := kPitchFilterPre, num_samples := PITCH_UPDATE c\<rparr> =
      p1\<lparr>num_samples := PITCH_UPDATE c, mode := kPitchFilterPre\<rparr>"
    by (cases p1) simp
  have "FilterFrame lrint c uninit in_data pf_state lags gains kPitchFilterPre out [] =
      Some (pf_state', gains', out2, dg2)"
    unfolding FilterFrame_def using S A F ex
    by (simp add: Let_def e FilterFrame_export_mode)
  then show ?thesis unfolding WebRtcIsac_PitchfilterPre_def by blast
qed

theorem PitchfilterPre_la_state_witness:
  "\<exists>st' g' out' dg' out2 dg2.
     WebRtcIsac_PitchfilterPre_la lrint_half_even short_settings uninit0 (replicate 10 0)
       (replicate 10 0) (state0\<lparr>ubuf := replicate 15 0 @ [1]\<rparr>) [8, 8, 8, 8] [0.5, 0.5, 0.5, 0.5] =
         Some (st', g', out', dg') \<and>
     WebRtcIsac_PitchfilterPre lrint_half_even short_settings uninit0 (replicate 10 0)
       (replicate 10 0) (state0\<lparr>ubuf := replicate 15 0 @ [1]\<rparr>) [8, 8, 8, 8] [0.5, 0.5, 0.5, 0.5] =
         Some (st', g', out2, dg2)"
proof -
  have "\<not> Option.is_none (WebRtcIsac_PitchfilterPre_la lrint_half_even short_settings uninit0
       (replicate 10 0) (replicate 10 0) (state0\<lparr>ubuf := replicate 15 0 @ [1]\<rparr>)
       [8, 8, 8, 8] [0.5, 0.5, 0.5, 0.5])"
    by (simp add: run_simps cong: run_congs)
  then obtain st' g' out' dg' where
    r: "WebRtcIsac_PitchfilterPre_la lrint_half_even short_settings uninit0 (replicate 10 0)
       (replicate 10 0) (state0\<lparr>ubuf := replicate 15 0 @ [1]\<rparr>) [8, 8, 8, 8] [0.5, 0.5, 0.5, 0.5] =
         Some (st', g', out', dg')"
    by (auto simp: Option.is_none_def)
  from PitchfilterPre_la_state [OF r] r show ?thesis by blast
qed

text \<open>
  C5 as it is stated fails: the write-back does not see the lookahead segment. On the
  run below the history holds a single 1 in its last place, the input is zero and all
  gains are 0.5. The source leaves the damper memory of the last sample of the frame in
  the state; in the order of the specification (lookahead first) the state would hold
  the damper memory two samples later.
\<close>

theorem PitchfilterPre_la_state_counterexample:
  "map_option fst
     (WebRtcIsac_PitchfilterPre_la lrint_half_even short_settings uninit0 (replicate 10 0)
        (replicate 10 0) (state0\<lparr>ubuf := replicate 15 0 @ [1]\<rparr>) [8, 8, 8, 8]
        [0.5, 0.5, 0.5, 0.5]) =
   Some \<lparr>ubuf = [0, 0, 0, 0, 0, 0, 0, 1, 0, 0, 0, - (7 / 20000000000000000),
            1 / 625000000000000, 21875000000001 / 625000000000000,
            - (2500000000000007 / 20000000000000000),
            - (127999999999999999999999999999951 / 400000000000000000000000000000000)],
          ystate = [- (19999999999999993 / 4000000000000000000000000000000),
            1 / 200000000000000, 99999999999999 / 200000000000000,
            1 / 200000000000000, - (1 / 200000000000000)],
          oldlagp = 8, oldgainp = 1 / 2\<rparr> \<and>
   map_option fst
     (FilterFrame_lookahead_first lrint_half_even short_settings uninit0 (replicate 10 0)
        (state0\<lparr>ubuf := replicate 15 0 @ [1]\<rparr>) [8, 8, 8, 8] [0.5, 0.5, 0.5, 0.5]
        kPitchFilterPreLa (replicate 10 0) []) =
   Some \<lparr>ubuf = [0, 0, 0, 0, 0, 0, 0, 1, 0, 0, 0, - (7 / 20000000000000000),
            1 / 625000000000000, 21875000000001 / 625000000000000,
            - (2500000000000007 / 20000000000000000),
            - (127999999999999999999999999999951 / 400000000000000000000000000000000)],
          ystate = [- (1399999999999993 / 4000000000000000000000000000000),
            - (39 / 4000000000000000000000000000000),
            - (19999999999999993 / 4000000000000000000000000000000),
            1 / 200000000000000, 99999999999999 / 200000000000000],
          oldlagp = 8, oldgainp = 1 / 2\<rparr>"
  by (simp add: run_simps cong: run_congs)

subsection \<open>Runs that return\<close>

lemma shift_states_returns:
  assumes "5 \<le> length ds"
  shows "\<exists>ds'. shift_states (rev [1..PITCH_DAMPORDER - 1]) ds = Some ds'"
proof -
  have u: "rev [1..PITCH_DAMPORDER - 1] = [4, 3, 2, 1]"
    by (simp add: PITCH_DAMPORDER_def upto_rec1)
  show ?thesis unfolding u using assms by (auto simp: rd_def wr_def)
qed

lemma mac_loop_returns:
  "\<forall>m \<in> set ms. a m \<noteq> None \<and> b m \<noteq> None \<Longrightarrow> \<exists>r. mac_loop a b ms acc = Some r"
proof (induction ms arbitrary: acc)
  case Nil
  then show ?case by simp
next
  case (Cons m ms)
  then obtain x y where "a m = Some x" "b m = Some y" by auto
  with Cons show ?case by simp
qed

text \<open>
  One sample is filtered without a failing access when the two positions and the nine
  history samples read from \<open>pos_lag\<close> on lie inside \<^verbatim>\<open>buffer\<close>, the row number is one
  of the eight rows, and the input and output samples at \<^verbatim>\<open>index\<close> exist.
\<close>

lemma FilterSegment_sample_returns:
  assumes m: "mode (parameters s) \<noteq> kPitchFilterPreGain"
    and d: "5 \<le> length (damper_state (parameters s))"
    and l: "0 \<le> pos_lag s" "pos_lag s + 8 < int (length (buffer (parameters s)))"
    and r: "0 \<le> interpol_coeff (parameters s)" "interpol_coeff (parameters s) < 8"
    and i: "0 \<le> index (parameters s)" "index (parameters s) < int (length in_data)"
           "index (parameters s) < int (length (out_data s))"
    and p: "0 \<le> pos s" "pos s < int (length (buffer (parameters s)))"
  shows "\<exists>s'. FilterSegment_sample in_data s = Some s'"
proof -
  let ?p = "parameters s"
  from shift_states_returns [OF d] obtain ds1 where
    sh: "shift_states (rev [1..PITCH_DAMPORDER - 1]) (damper_state ?p) = Some ds1" by blast
  note shf = shift_states_Some [OF sh]
  from shf have len1: "length ds1 = length (damper_state ?p)" by simp
  have "\<forall>m \<in> set [0..PITCH_FRACORDER - 1].
      rd (buffer ?p) (pos_lag s + m) \<noteq> None \<and> interpol_coeff_at (interpol_coeff ?p) m \<noteq> None"
    using l r by (auto simp: PITCH_FRACORDER_def rd_def interpol_coeff_at_row)
  from mac_loop_returns [OF this] obtain sum1 where
    fr: "mac_loop (\<lambda>m. rd (buffer ?p) (pos_lag s + m))
        (interpol_coeff_at (interpol_coeff ?p)) [0..PITCH_FRACORDER - 1] 0.0 = Some sum1"
    by blast
  let ?ds2 = "ds1[0 := gain ?p * sum1]"
  have w0: "wr ds1 0 (gain ?p * sum1) = Some ?ds2" using d len1 by (auto simp: wr_def)
  have k: "length kDampFilter = 5" by (simp add: kDampFilter_def)
  have "\<forall>m \<in> set [0..PITCH_DAMPORDER - 1]. rd ?ds2 m \<noteq> None \<and> rd kDampFilter m \<noteq> None"
    using d len1 k by (auto simp: PITCH_DAMPORDER_def rd_def)
  from mac_loop_returns [OF this] obtain sum3 where
    dm: "mac_loop (rd ?ds2) (rd kDampFilter) [0..PITCH_DAMPORDER - 1] 0.0 = Some sum3"
    by blast
  have x: "rd in_data (index ?p) = Some (in_data ! nat (index ?p))" using i by (simp add: rd_def)
  let ?out1 = "(out_data s)[nat (index ?p) := in_data ! nat (index ?p) - sum3]"
  have o: "wr (out_data s) (index ?p) (in_data ! nat (index ?p) - sum3) = Some ?out1"
    using i by (simp add: wr_def)
  have y: "rd ?out1 (index ?p) = Some (?out1 ! nat (index ?p))" using i by (simp add: rd_def)
  have b: "wr (buffer ?p) (pos s) (in_data ! nat (index ?p) + ?out1 ! nat (index ?p)) =
      Some ((buffer ?p)[nat (pos s) := in_data ! nat (index ?p) + ?out1 ! nat (index ?p)])"
    using p by (simp add: wr_def)
  show ?thesis
    unfolding FilterSegment_sample_def Let_def
    using m sh fr w0 dm x o y b by simp
qed


lemma FilterSegment_sample_keeps:
  assumes "FilterSegment_sample in_data s = Some s'"
  shows "length (damper_state (parameters s')) = length (damper_state (parameters s)) \<and>
         length (buffer (parameters s')) = length (buffer (parameters s)) \<and>
         length (out_data s') = length (out_data s) \<and>
         interpol_coeff (parameters s') = interpol_coeff (parameters s) \<and>
         mode (parameters s') = mode (parameters s) \<and>
         num_samples (parameters s') = num_samples (parameters s) \<and>
         lag (parameters s') = lag (parameters s) \<and>
         lag_offset (parameters s') = lag_offset (parameters s) \<and>
         index (parameters s') = index (parameters s) + 1 \<and>
         pos s' = pos s + 1 \<and> pos_lag s' = pos_lag s + 1"
proof -
  let ?p = "parameters s" and ?p' = "parameters s'"
  from FilterSegment_sample_Some [OF assms] obtain sum1 dsdg where
    ds': "damper_state ?p' = (damper_state ?p)
         [4 := damper_state ?p ! 3, 3 := damper_state ?p ! 2,
          2 := damper_state ?p ! 1, 1 := damper_state ?p ! 0, 0 := gain ?p * sum1]"
    and out': "out_data s' = (out_data s)[nat (index ?p) :=
        in_data ! nat (index ?p) - (\<Sum>m<5. damper_state ?p' ! m * kDampFilter ! m)]"
    and p': "?p' = ?p\<lparr>damper_state := damper_state ?p', damper_state_dg := dsdg,
        buffer := (buffer ?p)[nat (pos s) := in_data ! nat (index ?p) + out_data s' ! nat (index ?p)],
        index := index ?p + 1\<rparr>"
    and ps: "pos s' = pos s + 1" "pos_lag s' = pos_lag s + 1"
    by blast
  have a: "length (damper_state ?p') = length (damper_state ?p)" unfolding ds' by simp
  have b: "length (buffer ?p') = length (buffer ?p)" by (subst p') simp
  have c: "length (out_data s') = length (out_data s)" unfolding out' by simp
  have d: "interpol_coeff ?p' = interpol_coeff ?p" "mode ?p' = mode ?p"
    "num_samples ?p' = num_samples ?p" "lag ?p' = lag ?p" "lag_offset ?p' = lag_offset ?p"
    "index ?p' = index ?p + 1"
    by (subst p', simp)+
  from a b c d ps show ?thesis by simp
qed

lemma FilterSegment_loop_returns:
  assumes "mode (parameters s) \<noteq> kPitchFilterPreGain"
    and "5 \<le> length (damper_state (parameters s))"
    and "0 \<le> pos_lag s" and "pos_lag s + int n + 7 < int (length (buffer (parameters s)))"
    and "0 \<le> interpol_coeff (parameters s)" and "interpol_coeff (parameters s) < 8"
    and "0 \<le> index (parameters s)" and "index (parameters s) + int n \<le> int (length in_data)"
    and "index (parameters s) + int n \<le> int (length (out_data s))"
    and "0 \<le> pos s" and "pos s + int n \<le> int (length (buffer (parameters s)))"
  shows "\<exists>t. FilterSegment_loop in_data n s = Some t \<and>
         length (damper_state (parameters t)) = length (damper_state (parameters s)) \<and>
         length (buffer (parameters t)) = length (buffer (parameters s)) \<and>
         length (out_data t) = length (out_data s) \<and>
         mode (parameters t) = mode (parameters s) \<and>
         num_samples (parameters t) = num_samples (parameters s) \<and>
         lag (parameters t) = lag (parameters s) \<and>
         lag_offset (parameters t) = lag_offset (parameters s) \<and>
         interpol_coeff (parameters t) = interpol_coeff (parameters s) \<and>
         index (parameters t) = index (parameters s) + int n"
  using assms
proof (induction n arbitrary: s)
  case 0
  then show ?case by simp
next
  case (Suc n)
  have "\<exists>s'. FilterSegment_sample in_data s = Some s'"
    using Suc.prems by (intro FilterSegment_sample_returns) simp_all
  then obtain s' where s': "FilterSegment_sample in_data s = Some s'" ..
  note K = FilterSegment_sample_keeps [OF s']
  from K have k1: "length (damper_state (parameters s')) = length (damper_state (parameters s))"
    and k2: "length (buffer (parameters s')) = length (buffer (parameters s))"
    and k3: "length (out_data s') = length (out_data s)"
    and k4: "interpol_coeff (parameters s') = interpol_coeff (parameters s)"
    and k5: "mode (parameters s') = mode (parameters s)"
    and k6: "num_samples (parameters s') = num_samples (parameters s)"
    and k7: "lag (parameters s') = lag (parameters s)"
    and k11: "lag_offset (parameters s') = lag_offset (parameters s)"
    and k8: "index (parameters s') = index (parameters s) + 1"
    and k9: "pos s' = pos s + 1" and k10: "pos_lag s' = pos_lag s + 1"
    by simp_all
  have pr: "mode (parameters s') \<noteq> kPitchFilterPreGain"
    "5 \<le> length (damper_state (parameters s'))"
    "0 \<le> pos_lag s'" "pos_lag s' + int n + 7 < int (length (buffer (parameters s')))"
    "0 \<le> interpol_coeff (parameters s')" "interpol_coeff (parameters s') < 8"
    "0 \<le> index (parameters s')" "index (parameters s') + int n \<le> int (length in_data)"
    "index (parameters s') + int n \<le> int (length (out_data s'))"
    "0 \<le> pos s'" "pos s' + int n \<le> int (length (buffer (parameters s')))"
    using Suc.prems by (simp_all add: k1 k2 k3 k4 k5 k8 k9 k10)
  note Suc.IH [OF pr]
  then obtain t where t: "FilterSegment_loop in_data n s' = Some t"
    and r: "length (damper_state (parameters t)) = length (damper_state (parameters s'))"
      "length (buffer (parameters t)) = length (buffer (parameters s'))"
      "length (out_data t) = length (out_data s')"
      "mode (parameters t) = mode (parameters s')"
      "num_samples (parameters t) = num_samples (parameters s')"
      "lag (parameters t) = lag (parameters s')"
      "lag_offset (parameters t) = lag_offset (parameters s')"
      "interpol_coeff (parameters t) = interpol_coeff (parameters s')"
      "index (parameters t) = index (parameters s') + int n"
    by blast
  have "FilterSegment_loop in_data (Suc n) s = Some t" using s' t by simp
  with r k1 k2 k3 k4 k5 k6 k7 k8 k11 show ?case by simp
qed

lemma FilterSegment_returns:
  assumes "mode p \<noteq> kPitchFilterPreGain"
    and "5 \<le> length (damper_state p)"
    and "lag_offset p \<le> index p + PITCH_BUFFSIZE c"
    and "index p + PITCH_BUFFSIZE c - lag_offset p + int (nat (num_samples p)) + 7
           < int (length (buffer p))"
    and "0 \<le> interpol_coeff p" and "interpol_coeff p < 8"
    and "0 \<le> index p" and "index p + int (nat (num_samples p)) \<le> int (length in_data)"
    and "index p + int (nat (num_samples p)) \<le> int (length out)"
    and "0 \<le> PITCH_BUFFSIZE c"
    and "index p + PITCH_BUFFSIZE c + int (nat (num_samples p)) \<le> int (length (buffer p))"
  shows "\<exists>p' out' dg'. FilterSegment c in_data p out dg = Some (p', out', dg') \<and>
         length (damper_state p') = length (damper_state p) \<and>
         length (buffer p') = length (buffer p) \<and> length out' = length out \<and>
         mode p' = mode p \<and> num_samples p' = num_samples p \<and> lag p' = lag p \<and>
         lag_offset p' = lag_offset p \<and> interpol_coeff p' = interpol_coeff p \<and>
         index p' = index p + int (nat (num_samples p))"
proof -
  let ?s0 = "\<lparr>parameters = p, out_data = out, out_dg = dg, pos = index p + PITCH_BUFFSIZE c,
              pos_lag = index p + PITCH_BUFFSIZE c - lag_offset p\<rparr>"
  have "\<exists>t. FilterSegment_loop in_data (nat (num_samples p)) ?s0 = Some t \<and>
         length (damper_state (parameters t)) = length (damper_state (parameters ?s0)) \<and>
         length (buffer (parameters t)) = length (buffer (parameters ?s0)) \<and>
         length (out_data t) = length (out_data ?s0) \<and>
         mode (parameters t) = mode (parameters ?s0) \<and>
         num_samples (parameters t) = num_samples (parameters ?s0) \<and>
         lag (parameters t) = lag (parameters ?s0) \<and>
         lag_offset (parameters t) = lag_offset (parameters ?s0) \<and>
         interpol_coeff (parameters t) = interpol_coeff (parameters ?s0) \<and>
         index (parameters t) = index (parameters ?s0) + int (nat (num_samples p))"
    using assms by (intro FilterSegment_loop_returns) simp_all
  then obtain t where t: "FilterSegment_loop in_data (nat (num_samples p)) ?s0 = Some t"
    and r: "length (damper_state (parameters t)) = length (damper_state p)"
      "length (buffer (parameters t)) = length (buffer p)"
      "length (out_data t) = length out"
      "mode (parameters t) = mode p"
      "num_samples (parameters t) = num_samples p"
      "lag (parameters t) = lag p"
      "lag_offset (parameters t) = lag_offset p"
      "interpol_coeff (parameters t) = interpol_coeff p"
      "index (parameters t) = index p + int (nat (num_samples p))"
    by auto
  have "FilterSegment c in_data p out dg = Some (parameters t, out_data t, out_dg t)"
    unfolding FilterSegment_def Let_def using t by simp
  with r show ?thesis by blast
qed


text \<open>
  With a lag that does not change, \<open>Update\<close> computes the same offset and row in
  every pass, so the bounds of one segment carry over to all passes up to sample \<open>T\<close>.
\<close>

lemma FilterFrame_granules_returns:
  fixes T :: int
  assumes m: "mode p \<noteq> kPitchFilterPreGain"
    and d: "5 \<le> length (damper_state p)"
    and off: "off = lrint (lag p + PITCH_FILTDELAY c + 0.5)"
    and row: "row = lrint (8 * (of_int off - (lag p + PITCH_FILTDELAY c)) - 0.5)"
    and r: "0 \<le> row" "row < 8"
    and o: "off \<le> PITCH_BUFFSIZE c" "0 \<le> PITCH_BUFFSIZE c"
    and i: "0 \<le> index p" "index p + int (n * nat (num_samples p)) \<le> T"
    and t: "T \<le> int (length in_data)" "T \<le> int (length out)"
           "T + PITCH_BUFFSIZE c \<le> int (length (buffer p))"
           "T + PITCH_BUFFSIZE c - off + 7 < int (length (buffer p))"
  shows "\<exists>p' out' dg'.
         FilterFrame_granules lrint c in_data gd 0 n (p, out, dg) = Some (p', out', dg') \<and>
         length (damper_state p') = length (damper_state p) \<and>
         length (buffer p') = length (buffer p) \<and> length out' = length out \<and>
         mode p' = mode p \<and> num_samples p' = num_samples p \<and> lag p' = lag p \<and>
         (0 < n \<longrightarrow> lag_offset p' = off \<and> interpol_coeff p' = row) \<and>
         index p' = index p + int (n * nat (num_samples p))"
  using m d off row i t
proof (induction n arbitrary: p out dg)
  case 0
  then show ?case by simp
next
  case (Suc n)
  let ?U = "int (nat (num_samples p))"
  let ?p1 = "p\<lparr>gain := gain p + gd, lag := lag p + 0\<rparr>"
  let ?p2 = "?p1\<lparr>lag_offset := off, interpol_coeff := row\<rparr>"
  have u: "Update lrint c ?p1 = Some ?p2"
    using Suc.prems(1) by (simp add: Update_not_gain Suc.prems(3) Suc.prems(4))
  have step: "index p + ?U \<le> T"
  proof -
    have "int (Suc n * nat (num_samples p)) = ?U + int (n * nat (num_samples p))" by simp
    with Suc.prems(6) show ?thesis by linarith
  qed
  have "\<exists>p' out' dg'. FilterSegment c in_data ?p2 out dg = Some (p', out', dg') \<and>
         length (damper_state p') = length (damper_state ?p2) \<and>
         length (buffer p') = length (buffer ?p2) \<and> length out' = length out \<and>
         mode p' = mode ?p2 \<and> num_samples p' = num_samples ?p2 \<and> lag p' = lag ?p2 \<and>
         lag_offset p' = lag_offset ?p2 \<and> interpol_coeff p' = interpol_coeff ?p2 \<and>
         index p' = index ?p2 + int (nat (num_samples ?p2))"
    using Suc.prems r o step by (intro FilterSegment_returns) simp_all
  then obtain p3 out3 dg3 where
    f: "FilterSegment c in_data ?p2 out dg = Some (p3, out3, dg3)"
    and k: "length (damper_state p3) = length (damper_state p)"
      "length (buffer p3) = length (buffer p)" "length out3 = length out"
      "mode p3 = mode p" "num_samples p3 = num_samples p" "lag p3 = lag p"
      "lag_offset p3 = off" "interpol_coeff p3 = row"
      "index p3 = index p + ?U"
    by auto
  have pr: "mode p3 \<noteq> kPitchFilterPreGain" "5 \<le> length (damper_state p3)"
    "off = lrint (lag p3 + PITCH_FILTDELAY c + 0.5)"
    "row = lrint (8 * (of_int off - (lag p3 + PITCH_FILTDELAY c)) - 0.5)"
    "0 \<le> index p3" "index p3 + int (n * nat (num_samples p3)) \<le> T"
    "T \<le> int (length in_data)" "T \<le> int (length out3)"
    "T + PITCH_BUFFSIZE c \<le> int (length (buffer p3))"
    "T + PITCH_BUFFSIZE c - off + 7 < int (length (buffer p3))"
    using Suc.prems k by (simp_all add: algebra_simps)
  from Suc.IH [OF pr] obtain p' out' dg' where
    g: "FilterFrame_granules lrint c in_data gd 0 n (p3, out3, dg3) = Some (p', out', dg')"
    and k': "length (damper_state p') = length (damper_state p3)"
      "length (buffer p') = length (buffer p3)" "length out' = length out3"
      "mode p' = mode p3" "num_samples p' = num_samples p3" "lag p' = lag p3"
      "0 < n \<longrightarrow> lag_offset p' = off \<and> interpol_coeff p' = row"
      "index p' = index p3 + int (n * nat (num_samples p3))"
    by blast
  have lo: "lag_offset p' = off \<and> interpol_coeff p' = row"
  proof (cases n)
    case 0
    with g k show ?thesis by simp
  next
    case (Suc j)
    with k' show ?thesis by simp
  qed
  have run: "FilterFrame_granules lrint c in_data gd 0 (Suc n) (p, out, dg) = Some (p', out', dg')"
    using u f g by (simp add: Let_def)
  have ix: "index p' = index p + int (Suc n * nat (num_samples p))"
    using k k' by (simp add: algebra_simps)
  from run k k' lo ix show ?case by simp
qed


lemma FilterFrame_subframes_returns:
  fixes T :: int
  assumes m: "mode p \<noteq> kPitchFilterPreGain"
    and d: "5 \<le> length (damper_state p)"
    and l: "\<forall>m \<in> set ms. rd lags m = Some L" "\<forall>m \<in> set ms. rd gains m \<noteq> None"
    and off: "off = lrint (L + PITCH_FILTDELAY c + 0.5)"
    and row: "row = lrint (8 * (of_int off - (L + PITCH_FILTDELAY c)) - 0.5)"
    and r: "0 \<le> row" "row < 8"
    and o: "off \<le> PITCH_BUFFSIZE c" "0 \<le> PITCH_BUFFSIZE c"
    and i: "0 \<le> index p"
      "index p + int (length ms * (nat (PITCH_GRAN_PER_SUBFRAME c) * nat (num_samples p))) \<le> T"
    and t: "T \<le> int (length in_data)" "T \<le> int (length out)"
           "T + PITCH_BUFFSIZE c \<le> int (length (buffer p))"
           "T + PITCH_BUFFSIZE c - off + 7 < int (length (buffer p))"
  shows "\<exists>og' p' out' dg'.
         FilterFrame_subframes lrint c in_data lags gains ms (L, og, p, out, dg) =
           Some (L, og', p', out', dg') \<and>
         length (damper_state p') = length (damper_state p) \<and>
         length (buffer p') = length (buffer p) \<and> length out' = length out \<and>
         mode p' = mode p \<and> num_samples p' = num_samples p \<and>
         (ms \<noteq> [] \<and> 0 < PITCH_GRAN_PER_SUBFRAME c \<longrightarrow>
            lag_offset p' = off \<and> interpol_coeff p' = row) \<and>
         index p' = index p +
           int (length ms * (nat (PITCH_GRAN_PER_SUBFRAME c) * nat (num_samples p)))"
  using m d l i t
proof (induction ms arbitrary: og p out dg)
  case Nil
  then show ?case by simp
next
  case (Cons a ms)
  let ?G = "nat (PITCH_GRAN_PER_SUBFRAME c)"
  let ?N = "?G * nat (num_samples p)"
  let ?p1 = "p\<lparr>sub_frame := a, lag := L, gain := og\<rparr>"
  from Cons.prems(3) have la: "rd lags a = Some L" by simp
  from Cons.prems(4) obtain ga where ga: "rd gains a = Some ga" by auto
  have step: "index p + int ?N \<le> T"
  proof -
    have "int (length (a # ms) * ?N) = int ?N + int (length ms * ?N)" by simp
    with Cons.prems(6) show ?thesis by linarith
  qed
  have pr1: "mode ?p1 \<noteq> kPitchFilterPreGain" "5 \<le> length (damper_state ?p1)"
    "off = lrint (lag ?p1 + PITCH_FILTDELAY c + 0.5)"
    "row = lrint (8 * (of_int off - (lag ?p1 + PITCH_FILTDELAY c)) - 0.5)"
    "0 \<le> index ?p1" "index ?p1 + int (?G * nat (num_samples ?p1)) \<le> T"
    "T \<le> int (length in_data)" "T \<le> int (length out)"
    "T + PITCH_BUFFSIZE c \<le> int (length (buffer ?p1))"
    "T + PITCH_BUFFSIZE c - off + 7 < int (length (buffer ?p1))"
    using Cons.prems off row step by simp_all
  from FilterFrame_granules_returns
      [where gd = "(ga - og) / of_int (PITCH_GRAN_PER_SUBFRAME c)" and dg = dg,
       OF pr1(1,2,3,4) r o pr1(5,6,7,8,9,10)]
  obtain p3 out3 dg3 where
    g: "FilterFrame_granules lrint c in_data ((ga - og) / of_int (PITCH_GRAN_PER_SUBFRAME c)) 0 ?G
          (?p1, out, dg) = Some (p3, out3, dg3)"
    and k: "length (damper_state p3) = length (damper_state ?p1)"
      "length (buffer p3) = length (buffer ?p1)" "length out3 = length out"
      "mode p3 = mode ?p1" "num_samples p3 = num_samples ?p1"
      "0 < ?G \<longrightarrow> lag_offset p3 = off \<and> interpol_coeff p3 = row"
      "index p3 = index ?p1 + int (?G * nat (num_samples ?p1))"
    by (elim exE conjE) (rule that; assumption)
  have pr: "mode p3 \<noteq> kPitchFilterPreGain" "5 \<le> length (damper_state p3)"
    "\<forall>m \<in> set ms. rd lags m = Some L" "\<forall>m \<in> set ms. rd gains m \<noteq> None"
    "0 \<le> index p3"
    "index p3 + int (length ms * (?G * nat (num_samples p3))) \<le> T"
    "T \<le> int (length in_data)" "T \<le> int (length out3)"
    "T + PITCH_BUFFSIZE c \<le> int (length (buffer p3))"
    "T + PITCH_BUFFSIZE c - off + 7 < int (length (buffer p3))"
    using Cons.prems k by (simp_all add: algebra_simps)
  from Cons.IH [where og = ga and dg = dg3, OF pr] obtain og' p' out' dg' where
    rest: "FilterFrame_subframes lrint c in_data lags gains ms (L, ga, p3, out3, dg3) =
             Some (L, og', p', out', dg')"
    and k': "length (damper_state p') = length (damper_state p3)"
      "length (buffer p') = length (buffer p3)" "length out' = length out3"
      "mode p' = mode p3" "num_samples p' = num_samples p3"
      "ms \<noteq> [] \<and> 0 < PITCH_GRAN_PER_SUBFRAME c \<longrightarrow> lag_offset p' = off \<and> interpol_coeff p' = row"
      "index p' = index p3 + int (length ms * (?G * nat (num_samples p3)))"
    by blast
  have lo: "0 < PITCH_GRAN_PER_SUBFRAME c \<longrightarrow> lag_offset p' = off \<and> interpol_coeff p' = row"
  proof (cases ms)
    case Nil
    with rest k show ?thesis by simp
  next
    case (Cons b bs)
    with k' show ?thesis by simp
  qed
  have run: "FilterFrame_subframes lrint c in_data lags gains (a # ms) (L, og, p, out, dg) =
      Some (L, og', p', out', dg')"
    using la ga g rest by (simp add: Let_def)
  have ix: "index p' = index p + int (length (a # ms) * ?N)"
    using k k' by (simp add: algebra_simps)
  from run k k' lo ix show ?case by simp
qed


lemma enhance_gains_returns:
  assumes "\<forall>n \<in> set ns. 0 \<le> n \<and> n < int (length gains)"
  shows "\<exists>gains'. enhance_gains ns gains = Some gains' \<and> length gains' = length gains"
  using assms
proof (induction ns arbitrary: gains)
  case Nil
  then show ?case by simp
next
  case (Cons a ns)
  let ?g1 = "gains[nat a := gains ! nat a * - kEnhancer]"
  from Cons.prems have a: "0 \<le> a" "a < int (length gains)" by simp_all
  then have r: "rd gains a = Some (gains ! nat a)"
    and w: "wr gains a (gains ! nat a * - kEnhancer) = Some ?g1"
    by (simp_all add: rd_def wr_def)
  from Cons.prems have "\<forall>n \<in> set ns. 0 \<le> n \<and> n < int (length ?g1)" by simp
  from Cons.IH [OF this] obtain gains' where
    "enhance_gains ns ?g1 = Some gains'" "length gains' = length ?g1" by blast
  with r w show ?case by simp
qed

lemma FilterFrame_setup_returns:
  assumes m: "mode1 \<noteq> kPitchFilterPreGain"
    and u: "int (length (ubuf st)) \<le> PITCH_INTBUFFSIZE c + QLOOKAHEAD c"
    and y: "length (ystate st) = 5"
    and g: "length gains = 4"
  shows "\<exists>p0 gains'. FilterFrame_setup c uninit st gains mode1 dg = Some (p0, gains', dg) \<and>
         length gains' = 4 \<and> index p0 = 0 \<and> mode p0 = mode1 \<and>
         length (buffer p0) = nat (PITCH_INTBUFFSIZE c + QLOOKAHEAD c) \<and>
         5 \<le> length (damper_state p0)"
proof (cases "mode1 = kPitchFilterPost")
  case True
  have "\<forall>n \<in> set [0..PITCH_SUBFRAMES - 1]. 0 \<le> n \<and> n < int (length gains)"
    using g by (simp add: PITCH_SUBFRAMES_def)
  from enhance_gains_returns [OF this] obtain gains' where
    e: "enhance_gains [0..PITCH_SUBFRAMES - 1] gains = Some gains'"
    and l: "length gains' = length gains" by blast
  have b: "length (ubuf st) \<le> nat (PITCH_INTBUFFSIZE c + QLOOKAHEAD c)" using u by linarith
  show ?thesis
    unfolding FilterFrame_setup_def Let_def
    using True u y g e l b by (simp add: PITCH_DAMPORDER_def)
next
  case False
  have b: "length (ubuf st) \<le> nat (PITCH_INTBUFFSIZE c + QLOOKAHEAD c)" using u by linarith
  show ?thesis
    unfolding FilterFrame_setup_def Let_def
    using False m u y g b by (simp add: PITCH_DAMPORDER_def)
qed

lemma FilterFrame_anchors_returns:
  assumes m: "mode p \<noteq> kPitchFilterPreGain"
    and l: "rd lags 0 = Some L" and g: "rd gains 0 \<noteq> None"
    and ol: "oldlagp st = L \<or> L > PITCH_UPSTEP c * oldlagp st \<or> L < PITCH_DOWNSTEP c * oldlagp st"
  shows "\<exists>og. FilterFrame_anchors c st lags gains p = Some (L, og, p)"
proof -
  from g obtain g0 where g0: "rd gains 0 = Some g0" by auto
  show ?thesis
    unfolding FilterFrame_anchors_def Let_def
    using m l g0 ol by auto
qed

text \<open>
  In the three modes other than \<^verbatim>\<open>kPitchFilterPreGain\<close>, with the same lag \<open>L\<close> in the four
  sub-frames and a history that either has that lag or differs from it by more than the
  step ratios, \<open>FilterFrame\<close> returns: no access leaves its array. \<open>la\<close> is the number of
  lookahead samples that the mode filters.
\<close>

lemma FilterFrame_returns:
  fixes la :: int
  assumes m: "mode1 \<noteq> kPitchFilterPreGain"
    and la: "la = (if mode1 = kPitchFilterPreLa then QLOOKAHEAD c else 0)"
    and u: "int (length (ubuf st)) \<le> PITCH_INTBUFFSIZE c + QLOOKAHEAD c"
      "PITCH_FRAME_LEN c + int (length (ubuf st)) \<le> PITCH_INTBUFFSIZE c + QLOOKAHEAD c"
    and y: "length (ystate st) = 5"
    and lg: "lags = [L, L, L, L]" "length gains = 4"
    and ol: "oldlagp st = L \<or> L > PITCH_UPSTEP c * oldlagp st \<or> L < PITCH_DOWNSTEP c * oldlagp st"
    and off: "off = lrint (L + PITCH_FILTDELAY c + 0.5)"
    and row: "row = lrint (8 * (of_int off - (L + PITCH_FILTDELAY c)) - 0.5)"
    and r: "0 \<le> row" "row < 8"
    and o: "off \<le> PITCH_BUFFSIZE c" "0 \<le> PITCH_BUFFSIZE c"
    and fl: "PITCH_FRAME_LEN c = 4 * (PITCH_GRAN_PER_SUBFRAME c * PITCH_UPDATE c)"
      "0 < PITCH_GRAN_PER_SUBFRAME c" "0 \<le> PITCH_UPDATE c" "0 \<le> QLOOKAHEAD c"
    and t: "PITCH_FRAME_LEN c + la \<le> int (length in_data)"
      "PITCH_FRAME_LEN c + la \<le> int (length out)"
      "PITCH_FRAME_LEN c + la + PITCH_BUFFSIZE c \<le> PITCH_INTBUFFSIZE c + QLOOKAHEAD c"
      "PITCH_FRAME_LEN c + la + PITCH_BUFFSIZE c - off + 7 < PITCH_INTBUFFSIZE c + QLOOKAHEAD c"
  shows "\<exists>st' gains' out' dg'.
         FilterFrame lrint c uninit in_data st lags gains mode1 out dg =
           Some (st', gains', out', dg')"
proof -
  let ?B = "PITCH_INTBUFFSIZE c + QLOOKAHEAD c"
  let ?G = "nat (PITCH_GRAN_PER_SUBFRAME c)"
  let ?F = "PITCH_FRAME_LEN c"
  have la0: "0 \<le> la" using la fl(4) by simp
  have F0: "0 \<le> ?F" using fl by simp
  from FilterFrame_setup_returns [OF m u(1) y lg(2)] obtain p0 gains' where
    s: "FilterFrame_setup c uninit st gains mode1 dg = Some (p0, gains', dg)"
    and k0: "length gains' = 4" "index p0 = 0" "mode p0 = mode1"
      "length (buffer p0) = nat ?B" "5 \<le> length (damper_state p0)"
    by blast
  have m0: "mode p0 \<noteq> kPitchFilterPreGain" using m k0 by simp
  have l0: "rd lags 0 = Some L" using lg by (simp add: rd_def)
  have g0: "rd gains' 0 \<noteq> None" using k0 by (simp add: rd_def)
  from FilterFrame_anchors_returns [OF m0 l0 g0 ol] obtain og where
    a: "FilterFrame_anchors c st lags gains' p0 = Some (L, og, p0)" by blast
  let ?p1 = "p0\<lparr>num_samples := PITCH_UPDATE c\<rparr>"
  have ms: "[0..PITCH_SUBFRAMES - 1] = [0, 1, 2, 3]"
    by (simp add: PITCH_SUBFRAMES_def upto.simps)
  have N: "int (length [0::int, 1, 2, 3] * (?G * nat (num_samples ?p1))) = ?F"
    using fl by (simp add: nat_mult_distrib)
  have Bn: "int (nat ?B) = ?B" using t(3) F0 la0 o by simp
  have pr: "mode ?p1 \<noteq> kPitchFilterPreGain" "5 \<le> length (damper_state ?p1)"
    "\<forall>m \<in> set [0, 1, 2, 3]. rd lags m = Some L"
    "\<forall>m \<in> set [0, 1, 2, 3]. rd gains' m \<noteq> None"
    using m0 k0 lg by (simp_all add: rd_def)
  have pr2: "0 \<le> index ?p1"
    "index ?p1 + int (length [0::int, 1, 2, 3] * (?G * nat (num_samples ?p1))) \<le> ?F + la"
    "?F + la \<le> int (length in_data)" "?F + la \<le> int (length out)"
    "?F + la + PITCH_BUFFSIZE c \<le> int (length (buffer ?p1))"
    "?F + la + PITCH_BUFFSIZE c - off + 7 < int (length (buffer ?p1))"
    using k0 t la0 Bn unfolding N by simp_all
  from FilterFrame_subframes_returns
      [where og = og and dg = dg and gains = gains', OF pr off row r o pr2]
  obtain og' p2 out2 dg2 where
    sf: "FilterFrame_subframes lrint c in_data lags gains' [0, 1, 2, 3] (L, og, ?p1, out, dg) =
           Some (L, og', p2, out2, dg2)"
    and k2: "length (damper_state p2) = length (damper_state ?p1)"
      "length (buffer p2) = length (buffer ?p1)" "length out2 = length out"
      "mode p2 = mode ?p1" "num_samples p2 = num_samples ?p1"
      "[0::int, 1, 2, 3] \<noteq> [] \<and> 0 < PITCH_GRAN_PER_SUBFRAME c \<longrightarrow>
         lag_offset p2 = off \<and> interpol_coeff p2 = row"
      "index p2 = index ?p1 + int (length [0::int, 1, 2, 3] * (?G * nat (num_samples ?p1)))"
    by (elim exE conjE) (rule that; assumption)
  have ix: "index p2 = ?F" using k2(7) k0 unfolding N by simp
  have lo: "lag_offset p2 = off" "interpol_coeff p2 = row" using k2(6) fl by simp_all
  have len2: "int (length (buffer p2)) = ?B" "5 \<le> length (damper_state p2)"
    using k2 k0 Bn by simp_all
  let ?st' = "st\<lparr>ubuf := take (length (ubuf st)) (drop (nat ?F) (buffer p2)),
                  ystate := take (length (ystate st)) (damper_state p2),
                  oldlagp := L, oldgainp := og'\<rparr>"
  have ex: "FilterFrame_export c st p2 L og' = Some ?st'"
    unfolding FilterFrame_export_def using F0 u(2) len2 y by simp
  show ?thesis
  proof (cases "mode1 = kPitchFilterPreLa")
    case False
    have "FilterFrame lrint c uninit in_data st lags gains mode1 out dg =
            Some (?st', gains', out2, dg2)"
      unfolding FilterFrame_def Let_def ms using s a sf ex m False
      by (simp del: FilterFrame_subframes.simps)
    then show ?thesis by (intro exI)
  next
    case True
    let ?p3 = "p2\<lparr>sub_frame := PITCH_SUBFRAMES - 1, num_samples := QLOOKAHEAD c\<rparr>"
    have q: "la = QLOOKAHEAD c" using la True by simp
    have nq: "int (nat (QLOOKAHEAD c)) = QLOOKAHEAD c" using fl(4) by simp
    have pr3: "mode ?p3 \<noteq> kPitchFilterPreGain" "5 \<le> length (damper_state ?p3)"
      "lag_offset ?p3 \<le> index ?p3 + PITCH_BUFFSIZE c"
      "index ?p3 + PITCH_BUFFSIZE c - lag_offset ?p3 + int (nat (num_samples ?p3)) + 7
         < int (length (buffer ?p3))"
      "0 \<le> interpol_coeff ?p3" "interpol_coeff ?p3 < 8"
      "0 \<le> index ?p3" "index ?p3 + int (nat (num_samples ?p3)) \<le> int (length in_data)"
      "index ?p3 + int (nat (num_samples ?p3)) \<le> int (length out2)"
      "0 \<le> PITCH_BUFFSIZE c"
      "index ?p3 + PITCH_BUFFSIZE c + int (nat (num_samples ?p3)) \<le> int (length (buffer ?p3))"
      using k2(3,4) k0(3) m ix lo len2 r o F0 t nq unfolding q by simp_all
    from FilterSegment_returns [where dg = dg2, OF pr3] obtain p4 out4 dg4 where
      f: "FilterSegment c in_data ?p3 out2 dg2 = Some (p4, out4, dg4)" by blast
    have "FilterFrame lrint c uninit in_data st lags gains mode1 out dg =
            Some (?st', gains', out4, dg4)"
      unfolding FilterFrame_def Let_def ms using s a sf ex m True f
      by (simp del: FilterFrame_subframes.simps)
    then show ?thesis by (intro exI)
  qed
qed


text \<open>
  Away from a rounding tie of \<open>lag + PITCH_FILTDELAY + 0.5\<close> the row number lies inside
  the table.
\<close>

lemma lrint_half_even_between:
  assumes "of_int a - 1 / 2 < x" "x < of_int b + 1 / 2"
  shows "a \<le> lrint_half_even x \<and> lrint_half_even x \<le> b"
proof -
  let ?f = "\<lfloor>x\<rfloor>"
  let ?d = "x - of_int ?f"
  have lo: "a \<le> ?f + 1" using assms(1) by linarith
  have hi: "?f \<le> b" using assms(2) by linarith
  have up: "a \<le> ?f" if "?d \<le> 1 / 2"
  proof -
    have "of_int a - 1 < (of_int ?f :: real)" using that assms(1) by linarith
    then have "a - 1 < ?f" by linarith
    then show ?thesis by simp
  qed
  have dn: "?f + 1 \<le> b" if "1 / 2 \<le> ?d"
  proof -
    have "(of_int ?f :: real) < of_int b" using that assms(2) by linarith
    then have "?f < b" by linarith
    then show ?thesis by simp
  qed
  consider (lt) "?d < 1 / 2" | (gt) "1 / 2 < ?d" | (eq) "?d = 1 / 2" by linarith
  then show ?thesis
  proof cases
    case lt
    then have "lrint_half_even x = ?f" by (simp add: lrint_half_even_def Let_def)
    with up lt hi show ?thesis by simp
  next
    case gt
    then have "lrint_half_even x = ?f + 1" by (simp add: lrint_half_even_def Let_def)
    with dn gt lo show ?thesis by simp
  next
    case eq
    then have "lrint_half_even x = ?f \<or> lrint_half_even x = ?f + 1"
      by (simp add: lrint_half_even_def Let_def)
    with up dn eq lo hi show ?thesis by auto
  qed
qed

lemma Update_row_inside:
  assumes n: "\<bar>lag1 + PITCH_FILTDELAY c + 1 / 2 - of_int n\<bar> < 1 / 2"
    and off: "off = lrint_half_even (lag1 + PITCH_FILTDELAY c + 0.5)"
    and row: "row = lrint_half_even (8 * (of_int off - (lag1 + PITCH_FILTDELAY c)) - 0.5)"
  shows "off = n \<and> 0 \<le> row \<and> row < 8"
proof -
  have o: "off = n" unfolding off using n by (intro lrint_half_even_near) simp
  let ?x = "8 * (of_int n - (lag1 + PITCH_FILTDELAY c)) - 1 / 2"
  have x: "lag1 + PITCH_FILTDELAY c < of_int n" "of_int n - 1 < lag1 + PITCH_FILTDELAY c"
    using n by linarith+
  have "of_int 0 - 1 / 2 < ?x" "?x < of_int 7 + 1 / 2" using x by simp_all
  from lrint_half_even_between [OF this]
  have "0 \<le> lrint_half_even ?x \<and> lrint_half_even ?x \<le> 7" .
  then show ?thesis using o row by simp
qed

text \<open>
  With the constants of the codec: frames of 240 samples, and 24 more with lookahead.
\<close>

lemma FilterFrame_returns_isac:
  assumes m: "mode1 \<noteq> kPitchFilterPreGain"
    and la: "la = (if mode1 = kPitchFilterPreLa then 24 else 0)"
    and len: "240 + la \<le> length in_data" "240 + la \<le> length out"
      "length (ubuf st) = 190" "length (ystate st) = 5" "length gains = 4"
    and ol: "oldlagp st = L \<or> L > 1.5 * oldlagp st \<or> L < 0.67 * oldlagp st"
    and n: "\<bar>L + 2 - of_int n\<bar> < 1 / 2" "8 \<le> n" "n \<le> 190"
  shows "\<exists>st' gains' out' dg'.
         FilterFrame lrint_half_even isac_settings uninit in_data st [L, L, L, L] gains mode1
           out dg = Some (st', gains', out', dg')"
proof -
  let ?c = "isac_settings"
  let ?off = "lrint_half_even (L + PITCH_FILTDELAY ?c + 0.5)"
  let ?row = "lrint_half_even (8 * (of_int ?off - (L + PITCH_FILTDELAY ?c)) - 0.5)"
  have e: "PITCH_FILTDELAY ?c = 3 / 2" by (simp add: isac_settings_def)
  have "\<bar>L + PITCH_FILTDELAY ?c + 1 / 2 - of_int n\<bar> < 1 / 2"
    using n(1) e by linarith
  note ri = Update_row_inside [OF this refl refl]
  have o: "?off = n" by (rule ri [THEN conjunct1])
  have r: "0 \<le> ?row" "?row < 8"
    by (rule ri [THEN conjunct2, THEN conjunct1], rule ri [THEN conjunct2, THEN conjunct2])
  show ?thesis
  proof (rule FilterFrame_returns [where la = "int la" and off = ?off and row = ?row and L = L])
    show "mode1 \<noteq> kPitchFilterPreGain" by (rule m)
    show "int la = (if mode1 = kPitchFilterPreLa then QLOOKAHEAD ?c else 0)"
      using la by (simp add: isac_settings_def)
    show "0 \<le> ?row" "?row < 8" by (rule r)+
    show "?off \<le> PITCH_BUFFSIZE ?c" unfolding o using n by (simp add: isac_settings_def)
    show "PITCH_FRAME_LEN ?c + int la + PITCH_BUFFSIZE ?c - ?off + 7
            < PITCH_INTBUFFSIZE ?c + QLOOKAHEAD ?c"
      unfolding o using n la by (simp add: isac_settings_def)
    show "oldlagp st = L \<or> L > PITCH_UPSTEP ?c * oldlagp st \<or> L < PITCH_DOWNSTEP ?c * oldlagp st"
      using ol by (simp add: isac_settings_def)
  qed (use len la in \<open>simp_all add: isac_settings_def\<close>)
qed

lemma PitchfilterPre_returns_run:
  "\<exists>st' gains' out' dg'.
     WebRtcIsac_PitchfilterPre lrint_half_even isac_settings uninit (replicate 240 x)
       (replicate 240 0)
       \<lparr>ubuf = replicate 190 0, ystate = replicate 5 0, oldlagp = 40.3, oldgainp = 0.5\<rparr>
       [40.3, 40.3, 40.3, 40.3] [0.1, 0.2, 0.3, 0.4] = Some (st', gains', out', dg')"
  unfolding WebRtcIsac_PitchfilterPre_def
  by (rule FilterFrame_returns_isac [where la = 0 and n = 42]) simp_all

subsection \<open>A frame that reaches a rounding tie\<close>

text \<open>
  A segment of at least one sample fails when the row number is outside the table, and
  \<open>Update\<close> gives the row number 8 to every lag that lies \<^verbatim>\<open>PITCH_FILTDELAY\<close> below
  an odd integer.
\<close>

lemma FilterSegment_row_outside:
  assumes "interpol_coeff p < 0 \<or> 8 \<le> interpol_coeff p" and "0 < num_samples p"
  shows "FilterSegment c in_data p out dg = None"
proof -
  from assms(2) obtain n where n: "nat (num_samples p) = Suc n"
    by (cases "nat (num_samples p)") simp_all
  have s: "FilterSegment_sample in_data t = None" if "parameters t = p" for t
    using assms(1) that by (intro FilterSegment_sample_row_outside) simp
  show ?thesis
    unfolding FilterSegment_def Let_def n FilterSegment_loop.simps by (simp add: s)
qed

lemma Update_tie:
  assumes m: "mode p \<noteq> kPitchFilterPreGain"
    and l: "lag p = of_int (2 * k + 1) - PITCH_FILTDELAY c"
  shows "Update lrint_half_even c p = Some (p\<lparr>lag_offset := 2 * k + 2, interpol_coeff := 8\<rparr>)"
proof -
  have a: "lag p + PITCH_FILTDELAY c + 0.5 = (of_int (2 * k + 1) + 1 / 2 :: real)"
    unfolding l by simp
  have off: "lrint_half_even (lag p + PITCH_FILTDELAY c + 0.5) = 2 * k + 2"
    unfolding a by (rule lrint_half_even_tie_odd)
  have b: "8 * (of_int (2 * k + 2) - (lag p + PITCH_FILTDELAY c)) - 0.5
      = (of_int (2 * 3 + 1) + 1 / 2 :: real)"
    unfolding l by simp
  have row: "lrint_half_even (8 * (of_int (2 * k + 2) - (lag p + PITCH_FILTDELAY c)) - 0.5) = 8"
    unfolding b using lrint_half_even_tie_odd [of 3] by simp
  show ?thesis
    unfolding Update_not_gain [OF m] off row by simp
qed

lemma FilterFrame_granules_tie:
  assumes m: "mode p \<noteq> kPitchFilterPreGain"
    and l: "lag p + ld = of_int (2 * k + 1) - PITCH_FILTDELAY c"
    and n: "0 < num_samples p"
  shows "FilterFrame_granules lrint_half_even c in_data gd ld (Suc n) (p, out, dg) = None"
proof -
  let ?p1 = "p\<lparr>gain := gain p + gd, lag := lag p + ld\<rparr>"
  let ?p2 = "?p1\<lparr>lag_offset := 2 * k + 2, interpol_coeff := 8\<rparr>"
  have u: "Update lrint_half_even c ?p1 = Some ?p2"
    using m l by (intro Update_tie) simp_all
  have f: "FilterSegment c in_data ?p2 out dg = None"
    using n by (intro FilterSegment_row_outside) simp_all
  show ?thesis by (simp add: Let_def u f)
qed

text \<open>
  With the constants of the codec: the lag of the frame before is 41, the first
  sub-frame has the lag 43.5, which is no jump, so the lag goes up in 5 steps of 0.5.
  The first step filters with the lag 41.5, whose row number is 8, and the call fails
  whatever the signal, the gains and the other lags are.
\<close>

lemma PitchfilterPre_lag_tie_frame:
  assumes st: "length (ubuf st) = 190" "length (ystate st) = 5" "oldlagp st = 41"
    and g: "length gains = 4"
  shows "WebRtcIsac_PitchfilterPre lrint_half_even isac_settings uninit in_data out st
           [43.5, l1, l2, l3] gains = None"
proof -
  let ?c = "isac_settings"
  have u: "int (length (ubuf st)) \<le> PITCH_INTBUFFSIZE ?c + QLOOKAHEAD ?c"
    using st by (simp add: isac_settings_def)
  have "kPitchFilterPre \<noteq> kPitchFilterPreGain" by simp
  from FilterFrame_setup_returns [where dg = "[]" and uninit = uninit, OF this u st(2) g]
  obtain p0 gains' where
    s: "FilterFrame_setup ?c uninit st gains kPitchFilterPre [] = Some (p0, gains', [])"
    and k0: "length gains' = 4" "mode p0 = kPitchFilterPre"
    by auto
  have a: "FilterFrame_anchors ?c st [43.5, l1, l2, l3] gains' p0 = Some (41, oldgainp st, p0)"
    unfolding FilterFrame_anchors_def Let_def using st(3)
    by (simp add: rd_def isac_settings_def)
  obtain g0 where g0: "rd gains' 0 = Some g0" using k0 by (simp add: rd_def)
  let ?p1 = "p0\<lparr>num_samples := PITCH_UPDATE ?c, sub_frame := 0, lag := 41, gain := oldgainp st\<rparr>"
  have gr: "FilterFrame_granules lrint_half_even ?c in_data gd
              ((43.5 - 41) / of_int (PITCH_GRAN_PER_SUBFRAME ?c))
              (nat (PITCH_GRAN_PER_SUBFRAME ?c)) (?p1, out, []) = None" for gd
  proof -
    have n: "nat (PITCH_GRAN_PER_SUBFRAME ?c) = Suc 4" by (simp add: isac_settings_def)
    show ?thesis
      unfolding n
      by (rule FilterFrame_granules_tie [where k = 21]) (simp_all add: k0 isac_settings_def)
  qed
  have ms: "[0..PITCH_SUBFRAMES - 1] = 0 # [1, 2, 3]"
    by (simp add: PITCH_SUBFRAMES_def upto.simps)
  have l0: "rd [43.5, l1, l2, l3] 0 = Some 43.5" by (simp add: rd_def)
  have sf: "FilterFrame_subframes lrint_half_even ?c in_data [43.5, l1, l2, l3] gains'
              [0..PITCH_SUBFRAMES - 1] (41, oldgainp st, p0\<lparr>num_samples := PITCH_UPDATE ?c\<rparr>, out, [])
            = None"
    unfolding ms FilterFrame_subframes.simps Let_def l0 g0 using gr by simp
  show ?thesis
    unfolding WebRtcIsac_PitchfilterPre_def FilterFrame_def Let_def s using a sf by simp
qed

end
